theory Spec2Isabelle
  imports Complex_Main "HOL-Library.Sublist"
begin

chapter \<open>The model\<close>

section \<open>Sky ads (src/lib/skyAds.ts)\<close>

text \<open>
  A JavaScript string is a sequence of UTF-16 code units and \<open>length\<close> counts them, so
  the strings of an ad are lists of code-unit values. \<open>js\<close> writes an ASCII literal.
\<close>

type_synonym jstring = "nat list"

definition js :: "string \<Rightarrow> jstring" where
  "js s = map of_char s"

datatype Vehicle = plane | blimp

text \<open>
  \<open>interface SkyAd\<close>. The optional fields are options (\<open>None\<close> is \<open>undefined\<close>);
  \<open>priority\<close> is a finite integer (the comparator \<open>b.priority - a.priority\<close> is only
  consistent on numbers that are not NaN).
\<close>

record SkyAd =
  ad_id :: jstring
  ad_text :: jstring
  brand :: "jstring option"
  description :: "jstring option"
  color :: jstring
  bgColor :: jstring
  link :: "jstring option"
  vehicle :: Vehicle
  priority :: int

definition MAX_PLANES :: nat where "MAX_PLANES = 3"
definition MAX_BLIMPS :: nat where "MAX_BLIMPS = 2"
definition MAX_TEXT_LENGTH :: nat where "MAX_TEXT_LENGTH = 80"

text \<open>\<open>ALLOWED_LINK_PATTERN = /^(https:\/\/|mailto:)/\<close>, as its \<open>test\<close>.\<close>

definition ALLOWED_LINK_PATTERN :: "jstring \<Rightarrow> bool" where
  "ALLOWED_LINK_PATTERN s \<longleftrightarrow> prefix (js ''https://'') s \<or> prefix (js ''mailto:'') s"

text \<open>
  \<open>HEX_COLOR_PATTERN = /^#[0-9a-fA-F]{6}$/\<close>, as its \<open>test\<close>: without the \<open>m\<close> flag,
  \<open>$\<close> is the end of the input, so exactly seven code units match.
\<close>

definition hex_digit :: "nat \<Rightarrow> bool" where
  "hex_digit c \<longleftrightarrow> (48 \<le> c \<and> c \<le> 57) \<or> (97 \<le> c \<and> c \<le> 102) \<or> (65 \<le> c \<and> c \<le> 70)"

definition HEX_COLOR_PATTERN :: "jstring \<Rightarrow> bool" where
  "HEX_COLOR_PATTERN s \<longleftrightarrow>
     (case s of [] \<Rightarrow> False | h # t \<Rightarrow> h = 35 \<and> length t = 6 \<and> list_all hex_digit t)"

text \<open>
  The filter callback of \<open>validateAds\<close>. \<open>ad.link && ...\<close> skips the pattern test for a
  falsy link: \<open>undefined\<close> and the empty string.
\<close>

definition ad_ok :: "SkyAd \<Rightarrow> bool" where
  "ad_ok ad \<longleftrightarrow>
     (if length (ad_text ad) > MAX_TEXT_LENGTH then False
      else if (case link ad of None \<Rightarrow> False | Some l \<Rightarrow> l \<noteq> [] \<and> \<not> ALLOWED_LINK_PATTERN l)
        then False
      else if \<not> HEX_COLOR_PATTERN (color ad) then False
      else if \<not> HEX_COLOR_PATTERN (bgColor ad) then False
      else True)"

text \<open>
  \<open>validateAds\<close>: filter, then \<open>sort((a, b) => b.priority - a.priority)\<close>, a stable sort
  by descending priority (\<open>sort_key\<close> is a stable insertion sort).
\<close>

definition validateAds :: "SkyAd list \<Rightarrow> SkyAd list" where
  "validateAds ads = sort_key (\<lambda>a. - priority a) (filter ad_ok ads)"

record ActiveAds =
  planeAds :: "SkyAd list"
  blimpAds :: "SkyAd list"

definition getActiveAds :: "SkyAd list \<Rightarrow> ActiveAds" where
  "getActiveAds ads =
     (let valid = validateAds ads in
      \<lparr> planeAds = take MAX_PLANES (filter (\<lambda>a. vehicle a = plane) valid),
        blimpAds = take MAX_BLIMPS (filter (\<lambda>a. vehicle a = blimp) valid) \<rparr>)"

text \<open>What the ads of a returned list satisfy, and the order of a returned list.\<close>

definition link_ok :: "SkyAd \<Rightarrow> bool" where
  "link_ok ad \<longleftrightarrow> (case link ad of None \<Rightarrow> True | Some l \<Rightarrow> l = [] \<or> ALLOWED_LINK_PATTERN l)"

definition priority_desc :: "SkyAd list \<Rightarrow> bool" where
  "priority_desc ads \<longleftrightarrow> sorted_wrt (\<lambda>a b. priority a \<ge> priority b) ads"

text \<open>An ad whose link is the empty string: the filter keeps it.\<close>

definition empty_link_ad :: SkyAd where
  "empty_link_ad =
     \<lparr> ad_id = js ''x'', ad_text = js ''HELLO'', brand = None, description = None,
       color = js ''#ffffff'', bgColor = js ''#000000'', link = Some [],
       vehicle = plane, priority = 1 \<rparr>"

definition site_ad :: SkyAd where
  "site_ad =
     \<lparr> ad_id = js ''gitcity'', ad_text = js ''THEGITCITY.COM'', brand = Some (js ''Git City''),
       description = None, color = js ''#f8d880'', bgColor = js ''#1a1018'',
       link = Some (js ''https://thegitcity.com''), vehicle = plane, priority = 100 \<rparr>"

section \<open>The database (supabase/migrations)\<close>

text \<open>
  Tables are lists of rows in insertion order. Only the columns that the modelled code
  reads or writes are kept. A \<open>bigint\<close> key is a \<open>nat\<close>; a \<open>uuid\<close> is a \<open>nat\<close> as well,
  and \<open>gen_random_uuid()\<close> returns a value that it never returned before (the next
  value of the counter \<open>uuid_seq\<close>). A nullable
  column is an option. The statistics columns of \<open>developers\<close> read \<open>null\<close> as 0, which is
  what \<open>dev.contributions ?? 0\<close>, \<open>null / 100\<close> and \<open>Math.sqrt(null)\<close> all do.
\<close>

record developer =
  dev_id :: nat
  github_login :: string
  avatar_url :: "string option"
  claimed :: bool
  claimed_by :: "string option"
  contributions :: nat
  public_repos :: nat
  total_stars :: nat
  kudos_count :: nat
  referral_count :: nat
  rank :: nat

record item =
  item_key :: string
  item_name :: string
  price_usd_cents :: int
  price_brl_cents :: int
  is_active :: bool

record purchase =
  p_id :: nat
  developer_id :: nat
  item_id :: string
  provider :: string
  provider_tx_id :: "string option"
  amount_cents :: int
  currency :: string
  status :: string
  gifted_to :: "nat option"

datatype config =
    Loadout "string option" "string option" "string option"
  | RaidLoadout "string option" "string option"

record customization =
  c_developer_id :: nat
  c_item_id :: string
  config :: config
  updated_at :: nat

record raid =
  raid_id :: nat
  attacker_id :: nat
  defender_id :: nat
  attack_score :: int
  defense_score :: int
  success :: bool
  attacker_vehicle :: string
  attacker_tag_style :: string

record achievement =
  ach_id :: string
  category :: string
  ach_name :: string
  threshold :: int
  tier :: string
  reward_type :: string
  reward_item_id :: "string option"
  sort_order :: int

record unlock =
  u_developer_id :: nat
  u_achievement_id :: string

datatype feed_meta =
    AchievementOne string string string string
  | AchievementMany string nat "(string \<times> string \<times> string) list"
  | KudosGiven string string
  | OtherMeta

record feed_event =
  ev_id :: nat
  event_type :: string
  actor_id :: "nat option"
  target_id :: "nat option"
  metadata :: feed_meta
  created_at :: nat

record kudos =
  giver_id :: nat
  receiver_id :: nat
  given_date :: string

record db =
  developers :: "developer list"
  items :: "item list"
  purchases :: "purchase list"
  developer_customizations :: "customization list"
  raids :: "raid list"
  achievements :: "achievement list"
  developer_achievements :: "unlock list"
  activity_feed :: "feed_event list"
  developer_kudos :: "kudos list"
  uuid_seq :: nat

text \<open>The errors of the database, with their SQLSTATE codes.\<close>

datatype pg_error =
    unique_violation string
  | foreign_key_violation string
  | check_violation string
  | cardinality_violation

fun pg_code :: "pg_error \<Rightarrow> string" where
  "pg_code (unique_violation c) = ''23505''"
| "pg_code (foreign_key_violation c) = ''23503''"
| "pg_code (check_violation c) = ''23514''"
| "pg_code cardinality_violation = ''21000''"

text \<open>
  \<open>.single()\<close> and \<open>.maybeSingle()\<close>: the \<open>data\<close> of the result is the row when the
  query matches exactly one row, and \<open>null\<close> otherwise (with no row, and with several rows,
  where both report an error that the callers here do not read).
\<close>

fun single :: "'a list \<Rightarrow> 'a option" where
  "single [x] = Some x"
| "single xs = None"

definition maybeSingle :: "'a list \<Rightarrow> 'a option" where
  "maybeSingle xs = single xs"

subsection \<open>Table \<open>purchases\<close> (003_monetization.sql)\<close>

text \<open>
  The constraints of the table, checked for a new or changed row \<open>r\<close> against the other
  rows: the primary key; \<open>provider_tx_id text unique\<close>; the partial unique index
  \<open>idx_purchases_unique_completed on purchases(developer_id, item_id) where status =
  'completed'\<close>, which the migration declares for every item; the two foreign keys. The
  unique indexes are tested when the row is stored, the foreign keys after that.
\<close>

definition purchases_check :: "db \<Rightarrow> purchase list \<Rightarrow> purchase \<Rightarrow> pg_error option" where
  "purchases_check d others r =
     (if list_ex (\<lambda>x. p_id x = p_id r) others
        then Some (unique_violation ''purchases_pkey'')
      else if provider_tx_id r \<noteq> None \<and> list_ex (\<lambda>x. provider_tx_id x = provider_tx_id r) others
        then Some (unique_violation ''purchases_provider_tx_id_key'')
      else if status r = ''completed'' \<and>
          list_ex (\<lambda>x. status x = ''completed'' \<and> developer_id x = developer_id r \<and>
                       item_id x = item_id r) others
        then Some (unique_violation ''idx_purchases_unique_completed'')
      else if \<not> list_ex (\<lambda>x. dev_id x = developer_id r) (developers d)
        then Some (foreign_key_violation ''purchases_developer_id_fkey'')
      else if \<not> list_ex (\<lambda>x. item_key x = item_id r) (items d)
        then Some (foreign_key_violation ''purchases_item_id_fkey'')
      else None)"

text \<open>\<open>insert\<close>: the row gets a fresh \<open>id\<close>; a violated constraint leaves the table as it is.\<close>

definition insert_purchase :: "db \<Rightarrow> purchase \<Rightarrow> pg_error + purchase \<times> db" where
  "insert_purchase d v =
     (let r = v\<lparr>p_id := uuid_seq d\<rparr> in
      case purchases_check d (purchases d) r of
        Some e \<Rightarrow> Inl e
      | None \<Rightarrow> Inr (r, d\<lparr>purchases := purchases d @ [r], uuid_seq := Suc (uuid_seq d)\<rparr>))"

text \<open>\<open>update(...).eq("id", i)\<close>: the new column values are \<open>f\<close> of the old row.\<close>

definition update_purchase :: "db \<Rightarrow> nat \<Rightarrow> (purchase \<Rightarrow> purchase) \<Rightarrow> pg_error + db" where
  "update_purchase d i f =
     (let others = filter (\<lambda>x. p_id x \<noteq> i) (purchases d);
          upd = (\<lambda>x. (f x)\<lparr>p_id := i\<rparr>) in
      case List.find (\<lambda>x. p_id x = i \<and> purchases_check d others (upd x) \<noteq> None) (purchases d) of
        Some x \<Rightarrow> Inl (the (purchases_check d others (upd x)))
      | None \<Rightarrow> Inr (d\<lparr>purchases := map (\<lambda>x. if p_id x = i then upd x else x) (purchases d)\<rparr>))"

text \<open>\<open>delete().eq("id", i)\<close>.\<close>

definition delete_purchase :: "db \<Rightarrow> nat \<Rightarrow> db" where
  "delete_purchase d i = d\<lparr>purchases := filter (\<lambda>x. p_id x \<noteq> i) (purchases d)\<rparr>"

subsection \<open>Table \<open>raids\<close> (015: raid system)\<close>

text \<open>
  \<open>CONSTRAINT raids_no_self CHECK (attacker_id != defender_id)\<close>, which is tested before the
  row is stored; then the primary key; then the foreign keys.
\<close>

definition raids_check :: "db \<Rightarrow> raid list \<Rightarrow> raid \<Rightarrow> pg_error option" where
  "raids_check d others r =
     (if \<not> (attacker_id r \<noteq> defender_id r) then Some (check_violation ''raids_no_self'')
      else if list_ex (\<lambda>x. raid_id x = raid_id r) others then Some (unique_violation ''raids_pkey'')
      else if \<not> list_ex (\<lambda>x. dev_id x = attacker_id r) (developers d)
        then Some (foreign_key_violation ''raids_attacker_id_fkey'')
      else if \<not> list_ex (\<lambda>x. dev_id x = defender_id r) (developers d)
        then Some (foreign_key_violation ''raids_defender_id_fkey'')
      else None)"

definition insert_raid :: "db \<Rightarrow> raid \<Rightarrow> pg_error + raid \<times> db" where
  "insert_raid d v =
     (let r = v\<lparr>raid_id := uuid_seq d\<rparr> in
      case raids_check d (raids d) r of
        Some e \<Rightarrow> Inl e
      | None \<Rightarrow> Inr (r, d\<lparr>raids := raids d @ [r], uuid_seq := Suc (uuid_seq d)\<rparr>))"

definition update_raid :: "db \<Rightarrow> nat \<Rightarrow> (raid \<Rightarrow> raid) \<Rightarrow> pg_error + db" where
  "update_raid d i f =
     (let others = filter (\<lambda>x. raid_id x \<noteq> i) (raids d);
          upd = (\<lambda>x. (f x)\<lparr>raid_id := i\<rparr>) in
      case List.find (\<lambda>x. raid_id x = i \<and> raids_check d others (upd x) \<noteq> None) (raids d) of
        Some x \<Rightarrow> Inl (the (raids_check d others (upd x)))
      | None \<Rightarrow> Inr (d\<lparr>raids := map (\<lambda>x. if raid_id x = i then upd x else x) (raids d)\<rparr>))"

definition delete_raid :: "db \<Rightarrow> nat \<Rightarrow> db" where
  "delete_raid d i = d\<lparr>raids := filter (\<lambda>x. raid_id x \<noteq> i) (raids d)\<rparr>"

text \<open>
  The states of the database: both tables start empty, and every write to them goes
  through the checked operations above; the other tables change freely, but \<open>id\<close> stays
  the key of \<open>developers\<close> (the target of the foreign keys).
\<close>

inductive db_reachable :: "db \<Rightarrow> bool" where
  initial:
    "purchases d = [] \<Longrightarrow> raids d = [] \<Longrightarrow> distinct (map dev_id (developers d)) \<Longrightarrow>
     db_reachable d"
| p_insert: "db_reachable d \<Longrightarrow> insert_purchase d v = Inr (r, d') \<Longrightarrow> db_reachable d'"
| p_update: "db_reachable d \<Longrightarrow> update_purchase d i f = Inr d' \<Longrightarrow> db_reachable d'"
| p_delete: "db_reachable d \<Longrightarrow> db_reachable (delete_purchase d i)"
| r_insert: "db_reachable d \<Longrightarrow> insert_raid d w = Inr (r', d') \<Longrightarrow> db_reachable d'"
| r_update: "db_reachable d \<Longrightarrow> update_raid d i g = Inr d' \<Longrightarrow> db_reachable d'"
| r_delete: "db_reachable d \<Longrightarrow> db_reachable (delete_raid d i)"
| other_tables:
    "db_reachable d \<Longrightarrow> purchases d' = purchases d \<Longrightarrow> raids d' = raids d \<Longrightarrow>
     uuid_seq d \<le> uuid_seq d' \<Longrightarrow>
     distinct (map dev_id (developers d')) \<Longrightarrow> db_reachable d'"

section \<open>Checkout (POST of the checkout route)\<close>

record auth_user =
  user_id :: string
  user_name :: "string option"
  preferred_username :: "string option"
  email :: "string option"

text \<open>\<open>toLowerCase\<close> on the ASCII letters (GitHub logins are ASCII).\<close>

definition lower_char :: "char \<Rightarrow> char" where
  "lower_char c =
     (case map_of (zip ''ABCDEFGHIJKLMNOPQRSTUVWXYZ'' ''abcdefghijklmnopqrstuvwxyz'') c of
        Some l \<Rightarrow> l
      | None \<Rightarrow> c)"

definition toLowerCase :: "string \<Rightarrow> string" where
  "toLowerCase s = map lower_char s"

text \<open>\<open>(user_metadata.user_name ?? user_metadata.preferred_username ?? "").toLowerCase()\<close>\<close>

definition githubLogin_of :: "auth_user \<Rightarrow> string" where
  "githubLogin_of u =
     toLowerCase (case user_name u of Some n \<Rightarrow> n
                  | None \<Rightarrow> (case preferred_username u of Some n \<Rightarrow> n | None \<Rightarrow> ''''))"

text \<open>
  The request: the session's user, the clock (\<open>Date.now()\<close>), the parsed JSON body
  (\<open>None\<close> when \<open>request.json()\<close> throws; a missing field is \<open>None\<close>), and what the two
  payment providers answer (\<open>None\<close> when the call throws).
\<close>

record checkout_body =
  b_item_id :: "string option"
  b_provider :: "string option"
  b_currency :: "string option"

record checkout_request =
  user :: "auth_user option"
  now :: nat
  body :: "checkout_body option"
  createCheckoutSession :: "string option"
  createPixQrCode :: "(string \<times> string \<times> string) option"

datatype reply =
    Error string
  | MaxSlotsReached int
  | CheckoutSession string nat
  | PixQrCode string string nat

type_synonym response = "nat \<times> reply"

text \<open>
  The rate limit, \<open>last && now - last < 10_000\<close>, on the in-memory map \<open>lastCheckout\<close>.
\<close>

definition rate_limited :: "(string \<rightharpoonup> nat) \<Rightarrow> string \<Rightarrow> nat \<Rightarrow> bool" where
  "rate_limited lastCheckout uid t \<longleftrightarrow>
     (case lastCheckout uid of None \<Rightarrow> False
      | Some last_t \<Rightarrow> last_t \<noteq> 0 \<and> int t - int last_t < 10000)"

text \<open>
  The slot count of a building. \<open>Math.min\<close>, \<open>Math.round\<close> (round half up), \<open>Math.sqrt\<close>,
  \<open>Math.max\<close> and \<open>Math.floor\<close> are taken on the reals.
\<close>

definition maxSlots :: "nat \<Rightarrow> nat \<Rightarrow> int" where
  "maxSlots repos contribs =
     (let repoFactor = min 1 (real repos / 100);
          baseW = 14 + repoFactor * 16;
          w = round (baseW + 5);
          d = round (12 + 10 :: real);
          h = max 30 (12 + sqrt (real contribs) * 3);
          minBillArea = 10 * 8;
          totalFaceArea = 2 * real_of_int (w + d) * h
      in max 1 \<lfloor>totalFaceArea / (minBillArea * 6)\<rfloor>)"

record checkout_ctx =
  cx_login :: string
  cx_dev :: developer
  cx_item_id :: string
  cx_provider :: string
  cx_currency :: "string option"
  cx_item :: item

text \<open>Lines 33 to 91: the login, the claimed building, the body, the item.\<close>

definition checkout_validate :: "checkout_request \<Rightarrow> auth_user \<Rightarrow> db \<Rightarrow> response + checkout_ctx" where
  "checkout_validate req u d =
     (let githubLogin = githubLogin_of u in
      if githubLogin = [] then Inl (400, Error ''No GitHub login found'')
      else case single (filter (\<lambda>x. github_login x = githubLogin) (developers d)) of
        None \<Rightarrow> Inl (403, Error ''You must claim your building first'')
      | Some dev \<Rightarrow>
          if \<not> claimed dev then Inl (403, Error ''You must claim your building first'')
          else if claimed_by dev \<noteq> Some (user_id u) then Inl (403, Error ''This building is not yours'')
          else case body req of
            None \<Rightarrow> Inl (400, Error ''Invalid body'')
          | Some b \<Rightarrow>
              (case (b_item_id b, b_provider b) of
                 (Some iid, Some prov) \<Rightarrow>
                   if iid = [] \<or> prov = [] \<or> prov \<notin> set [''stripe'', ''abacatepay'']
                   then Inl (400, Error ''Invalid item_id or provider'')
                   else (case single (filter (\<lambda>x. item_key x = iid \<and> is_active x) (items d)) of
                       None \<Rightarrow> Inl (404, Error ''Item not found or inactive'')
                     | Some it \<Rightarrow>
                         Inr \<lparr> cx_login = githubLogin, cx_dev = dev, cx_item_id = iid,
                               cx_provider = prov, cx_currency = b_currency b, cx_item = it \<rparr>)
               | _ \<Rightarrow> Inl (400, Error ''Invalid item_id or provider'')))"

text \<open>
  Lines 93 to 143: the billboard slots, or the ownership of any other item. \<open>None\<close> lets
  the request go on.
\<close>

definition checkout_owned :: "db \<Rightarrow> checkout_ctx \<Rightarrow> response option" where
  "checkout_owned d cx =
     (if cx_item_id cx = ''billboard'' then
        (let billboardCount = length (filter (\<lambda>x. developer_id x = dev_id (cx_dev cx) \<and>
                 item_id x = ''billboard'' \<and> status x = ''completed'') (purchases d)) in
         case single (filter (\<lambda>x. dev_id x = dev_id (cx_dev cx)) (developers d)) of
           None \<Rightarrow> None
         | Some devFull \<Rightarrow>
             (let m = maxSlots (public_repos devFull) (contributions devFull) in
              if int billboardCount \<ge> m then Some (409, MaxSlotsReached m) else None))
      else
        (case maybeSingle (filter (\<lambda>x. developer_id x = dev_id (cx_dev cx) \<and>
                 item_id x = cx_item_id cx \<and> status x = ''completed'') (purchases d)) of
           Some existingPurchase \<Rightarrow> Some (409, Error ''Already owned'')
         | None \<Rightarrow> None))"

text \<open>Lines 145 to 157: the stale pending purchase.\<close>

definition checkout_pending :: "db \<Rightarrow> checkout_ctx \<Rightarrow> db" where
  "checkout_pending d cx =
     (case maybeSingle (filter (\<lambda>x. developer_id x = dev_id (cx_dev cx) \<and>
              item_id x = cx_item_id cx \<and> status x = ''pending'') (purchases d)) of
        Some pendingPurchase \<Rightarrow> delete_purchase d (p_id pendingPurchase)
      | None \<Rightarrow> d)"

text \<open>
  Lines 159 to 221: the pending purchase and the provider's session. A provider that
  throws is caught after the insert, and the row stays.
\<close>

definition checkout_create :: "checkout_request \<Rightarrow> db \<Rightarrow> checkout_ctx \<Rightarrow> response \<times> db" where
  "checkout_create req d cx =
     (if cx_provider cx = ''stripe'' then
        (let useBrl = (cx_currency cx = Some ''brl'');
             amountCents = (if useBrl then price_brl_cents (cx_item cx) else price_usd_cents (cx_item cx));
             cur = (if useBrl then ''brl'' else ''usd'') in
         case insert_purchase d \<lparr> p_id = 0, developer_id = dev_id (cx_dev cx),
                item_id = cx_item_id cx, provider = ''stripe'', provider_tx_id = None,
                amount_cents = amountCents, currency = cur, status = ''pending'',
                gifted_to = None \<rparr> of
           Inl purchaseError \<Rightarrow> ((500, Error ''Failed to create purchase''), d)
         | Inr (purchase, d') \<Rightarrow>
             (case createCheckoutSession req of
                None \<Rightarrow> ((500, Error ''Failed to create checkout session''), d')
              | Some url \<Rightarrow> ((200, CheckoutSession url (p_id purchase)), d')))
      else
        (case insert_purchase d \<lparr> p_id = 0, developer_id = dev_id (cx_dev cx),
                item_id = cx_item_id cx, provider = ''abacatepay'', provider_tx_id = None,
                amount_cents = price_brl_cents (cx_item cx), currency = ''brl'',
                status = ''pending'', gifted_to = None \<rparr> of
           Inl purchaseError \<Rightarrow> ((500, Error ''Failed to create purchase''), d)
         | Inr (purchase, d') \<Rightarrow>
             (case createPixQrCode req of
                None \<Rightarrow> ((500, Error ''Failed to create checkout session''), d')
              | Some (brCode, brCodeBase64, pixId) \<Rightarrow>
                  (let d'' = (case update_purchase d' (p_id purchase)
                                     (\<lambda>x. x\<lparr>provider_tx_id := Some pixId\<rparr>) of
                                Inl e \<Rightarrow> d' | Inr d2 \<Rightarrow> d2) in
                   ((200, PixQrCode brCode brCodeBase64 (p_id purchase)), d'')))))"

definition checkout_POST ::
  "checkout_request \<Rightarrow> (string \<rightharpoonup> nat) \<Rightarrow> db \<Rightarrow> response \<times> (string \<rightharpoonup> nat) \<times> db" where
  "checkout_POST req lastCheckout d =
     (case user req of
        None \<Rightarrow> ((401, Error ''Not authenticated''), lastCheckout, d)
      | Some u \<Rightarrow>
          if rate_limited lastCheckout (user_id u) (now req)
          then ((429, Error ''Too fast. Wait a few seconds.''), lastCheckout, d)
          else
            (let lc = lastCheckout(user_id u \<mapsto> now req) in
             case checkout_validate req u d of
               Inl resp \<Rightarrow> (resp, lc, d)
             | Inr cx \<Rightarrow>
                 (case checkout_owned d cx of
                    Some resp \<Rightarrow> (resp, lc, d)
                  | None \<Rightarrow>
                      (let (resp, d') = checkout_create req (checkout_pending d cx) cx
                       in (resp, lc, d')))))"

subsection \<open>Invariants\<close>

definition completed_for :: "nat \<Rightarrow> string \<Rightarrow> purchase \<Rightarrow> bool" where
  "completed_for dv it x \<longleftrightarrow> developer_id x = dv \<and> item_id x = it \<and> status x = ''completed''"

definition pending_for :: "nat \<Rightarrow> string \<Rightarrow> purchase \<Rightarrow> bool" where
  "pending_for dv it x \<longleftrightarrow> developer_id x = dv \<and> item_id x = it \<and> status x = ''pending''"

definition pk_purchases :: "db \<Rightarrow> bool" where
  "pk_purchases d \<longleftrightarrow> distinct (map p_id (purchases d))"

definition ids_below :: "db \<Rightarrow> bool" where
  "ids_below d \<longleftrightarrow> (\<forall>x \<in> set (purchases d). p_id x < uuid_seq d)"

definition unique_completed :: "db \<Rightarrow> bool" where
  "unique_completed d \<longleftrightarrow>
     (\<forall>x \<in> set (purchases d). \<forall>y \<in> set (purchases d).
        status x = ''completed'' \<and> status y = ''completed'' \<and> developer_id x = developer_id y \<and>
        item_id x = item_id y \<longrightarrow> p_id x = p_id y)"

definition raids_no_self :: "db \<Rightarrow> bool" where
  "raids_no_self d \<longleftrightarrow> (\<forall>r \<in> set (raids d). attacker_id r \<noteq> defender_id r)"

definition db_inv :: "db \<Rightarrow> bool" where
  "db_inv d \<longleftrightarrow> pk_purchases d \<and> ids_below d \<and> unique_completed d \<and> raids_no_self d \<and>
     distinct (map dev_id (developers d))"

subsection \<open>A small shop\<close>

definition alice :: auth_user where
  "alice = \<lparr> user_id = ''u-alice'', user_name = Some ''Alice'', preferred_username = None,
             email = None \<rparr>"

definition alice_dev :: developer where
  "alice_dev = \<lparr> dev_id = 1, github_login = ''alice'', avatar_url = None, claimed = True,
                 claimed_by = Some ''u-alice'', contributions = 0, public_repos = 0,
                 total_stars = 0, kudos_count = 0, referral_count = 0, rank = 1 \<rparr>"

definition bob_dev :: developer where
  "bob_dev = \<lparr> dev_id = 2, github_login = ''bob'', avatar_url = None, claimed = False,
               claimed_by = None, contributions = 120, public_repos = 7,
               total_stars = 3, kudos_count = 0, referral_count = 0, rank = 2 \<rparr>"

definition flag_item :: item where
  "flag_item = \<lparr> item_key = ''flag'', item_name = ''Flag'', price_usd_cents = 100,
                 price_brl_cents = 490, is_active = True \<rparr>"

definition billboard_item :: item where
  "billboard_item = \<lparr> item_key = ''billboard'', item_name = ''Billboard'', price_usd_cents = 300,
                      price_brl_cents = 1490, is_active = True \<rparr>"

definition shop_db :: "purchase list \<Rightarrow> nat \<Rightarrow> db" where
  "shop_db ps n =
     \<lparr> developers = [alice_dev, bob_dev], items = [flag_item, billboard_item], purchases = ps,
       developer_customizations = [], raids = [], achievements = [], developer_achievements = [],
       activity_feed = [], developer_kudos = [], uuid_seq = n \<rparr>"

text \<open>A completed purchase of Alice that was granted, and a pending one from a checkout.\<close>

definition granted :: "nat \<Rightarrow> string \<Rightarrow> purchase" where
  "granted i it =
     \<lparr> p_id = i, developer_id = 1, item_id = it, provider = ''achievement'', provider_tx_id = None,
       amount_cents = 0, currency = ''usd'', status = ''completed'', gifted_to = None \<rparr>"

definition pending_flag :: purchase where
  "pending_flag =
     \<lparr> p_id = 0, developer_id = 1, item_id = ''flag'', provider = ''stripe'', provider_tx_id = None,
       amount_cents = 100, currency = ''usd'', status = ''pending'', gifted_to = None \<rparr>"

definition pix_flag :: purchase where
  "pix_flag =
     \<lparr> p_id = 1, developer_id = 1, item_id = ''flag'', provider = ''abacatepay'',
       provider_tx_id = Some ''pix_1'', amount_cents = 490, currency = ''brl'',
       status = ''pending'', gifted_to = None \<rparr>"



definition order :: "string \<Rightarrow> string \<Rightarrow> checkout_request" where
  "order it prov =
     \<lparr> user = Some alice, now = 20000,
       body = Some \<lparr> b_item_id = Some it, b_provider = Some prov, b_currency = None \<rparr>,
       createCheckoutSession = Some ''https://checkout.stripe.com/c/pay/cs_1'',
       createPixQrCode = Some (''00020126'', ''iVBORw0KGgo='', ''pix_1'') \<rparr>"

definition order_ctx :: "string \<Rightarrow> string \<Rightarrow> item \<Rightarrow> checkout_ctx" where
  "order_ctx it prov i =
     \<lparr> cx_login = ''alice'', cx_dev = alice_dev, cx_item_id = it, cx_provider = prov,
       cx_currency = None, cx_item = i \<rparr>"

definition no_checkout :: "string \<rightharpoonup> nat" where
  "no_checkout = Map.empty"

definition recent_checkout :: "string \<rightharpoonup> nat" where
  "recent_checkout = [''u-alice'' \<mapsto> 15000]"

text \<open>A raid of Alice on Bob.\<close>

definition raid_on_bob :: raid where
  "raid_on_bob =
     \<lparr> raid_id = 0, attacker_id = 1, defender_id = 2, attack_score = 12, defense_score = 9,
       success = True, attacker_vehicle = ''airplane'', attacker_tag_style = ''default'' \<rparr>"

subsection \<open>More developers\<close>

text \<open>The decimal digits of a number, for the template strings and the logins.\<close>

fun string_of_nat :: "nat \<Rightarrow> string" where
  "string_of_nat n =
     (if n < 10 then [''0123456789'' ! n]
      else string_of_nat (n div 10) @ [''0123456789'' ! (n mod 10)])"

declare string_of_nat.simps [simp del]

text \<open>Developer \<open>i\<close> of many: 120 contributions, rank \<open>i\<close>, building not claimed.\<close>

definition citizen :: "nat \<Rightarrow> developer" where
  "citizen i = \<lparr> dev_id = i, github_login = ''dev'' @ string_of_nat i, avatar_url = None,
                 claimed = False, claimed_by = None, contributions = 120, public_repos = 0,
                 total_stars = 0, kudos_count = 0, referral_count = 0, rank = i \<rparr>"

section \<open>Loadouts (POST of api/loadout and of api/raid/loadout)\<close>

text \<open>\<open>ZONE_ITEMS\<close> of lib/zones.ts.\<close>

definition ZONE_ITEMS :: "string \<Rightarrow> string list option" where
  "ZONE_ITEMS = map_of
     [(''crown'', [''flag'', ''helipad'', ''spire'', ''satellite_dish'', ''crown_item'']),
      (''roof'', [''antenna_array'', ''rooftop_garden'', ''rooftop_fire'', ''pool_party'']),
      (''aura'', [''neon_trim'', ''spotlight'', ''hologram_ring'', ''lightning_aura''])]"

text \<open>
  The requests. The body is \<open>None\<close> when \<open>request.json()\<close> throws, which neither handler
  catches. api/loadout treats a field that is \<open>null\<close> like one that is missing: both are
  \<open>None\<close>. api/raid/loadout tells a missing field (\<open>undefined\<close>) from one that is \<open>null\<close>.
\<close>

datatype json_field = Undefined | Null | Str string

record loadout_body =
  crown :: "string option"
  roof :: "string option"
  aura :: "string option"

record loadout_request =
  l_user :: "auth_user option"
  l_body :: "loadout_body option"
  l_now :: nat

record raid_loadout_body =
  rl_vehicle :: json_field
  rl_tag :: json_field

record raid_loadout_request =
  rl_user :: "auth_user option"
  rl_body :: "raid_loadout_body option"
  rl_now :: nat

datatype loadout_reply =
    LoadoutError string
  | LoadoutSaved "string option" "string option" "string option"
  | RaidLoadoutSaved string string
  | UnhandledRejection

text \<open>
  \<open>upsert(row, { onConflict: "developer_id,item_id" })\<close> on \<open>developer_customizations\<close>:
  the row replaces the one of its key, or is added. A row that violates a foreign key is
  refused; the handlers do not read the result.
\<close>

definition upsert_customization :: "db \<Rightarrow> customization \<Rightarrow> db" where
  "upsert_customization d c =
     (if \<not> list_ex (\<lambda>x. dev_id x = c_developer_id c) (developers d) \<or>
         \<not> list_ex (\<lambda>x. item_key x = c_item_id c) (items d)
      then d
      else if list_ex (\<lambda>x. c_developer_id x = c_developer_id c \<and> c_item_id x = c_item_id c)
                (developer_customizations d)
      then d\<lparr>developer_customizations :=
               map (\<lambda>x. if c_developer_id x = c_developer_id c \<and> c_item_id x = c_item_id c
                         then c else x) (developer_customizations d)\<rparr>
      else d\<lparr>developer_customizations := developer_customizations d @ [c]\<rparr>)"

text \<open>The items that a developer owns: the completed purchases.\<close>

definition ownedSet :: "db \<Rightarrow> nat \<Rightarrow> string set" where
  "ownedSet d dv =
     set (map item_id (filter (\<lambda>p. developer_id p = dv \<and> status p = ''completed'') (purchases d)))"

text \<open>
  The loop over the three zones of api/loadout: the first item that is not of its zone,
  or not owned, ends the request.
\<close>

fun equip_zones ::
  "string set \<Rightarrow> (string \<times> string option) list \<Rightarrow> (nat \<times> loadout_reply) + string option list" where
  "equip_zones owned [] = Inr []"
| "equip_zones owned ((zone, None) # rest) =
     (case equip_zones owned rest of Inl r \<Rightarrow> Inl r | Inr cfg \<Rightarrow> Inr (None # cfg))"
| "equip_zones owned ((zone, Some itemId) # rest) =
     (if \<not> (case ZONE_ITEMS zone of None \<Rightarrow> False | Some its \<Rightarrow> itemId \<in> set its)
      then Inl (400, LoadoutError (itemId @ '' is not valid for zone '' @ zone))
      else if itemId \<notin> owned
      then Inl (403, LoadoutError (''You don'' @ [CHR 0x27] @ ''t own '' @ itemId))
      else (case equip_zones owned rest of Inl r \<Rightarrow> Inl r | Inr cfg \<Rightarrow> Inr (Some itemId # cfg)))"

definition loadout_POST :: "loadout_request \<Rightarrow> db \<Rightarrow> (nat \<times> loadout_reply) \<times> db" where
  "loadout_POST req d =
     (case l_user req of
        None \<Rightarrow> ((401, LoadoutError ''Not authenticated''), d)
      | Some u \<Rightarrow>
          (case single (filter (\<lambda>x. github_login x = githubLogin_of u) (developers d)) of
             None \<Rightarrow> ((403, LoadoutError ''Must own a claimed building''), d)
           | Some dev \<Rightarrow>
               if \<not> claimed dev \<or> claimed_by dev \<noteq> Some (user_id u)
               then ((403, LoadoutError ''Must own a claimed building''), d)
               else (case l_body req of
                  None \<Rightarrow> ((500, UnhandledRejection), d)
                | Some b \<Rightarrow>
                    (case equip_zones (ownedSet d (dev_id dev))
                            [(''crown'', crown b), (''roof'', roof b), (''aura'', aura b)] of
                       Inl r \<Rightarrow> (r, d)
                     | Inr cfg \<Rightarrow>
                         (let config = Loadout (cfg ! 0) (cfg ! 1) (cfg ! 2) in
                          ((200, LoadoutSaved (cfg ! 0) (cfg ! 1) (cfg ! 2)),
                           upsert_customization d
                             \<lparr> c_developer_id = dev_id dev, c_item_id = ''loadout'',
                               config = config, updated_at = l_now req \<rparr>))))))"

text \<open>
  api/raid/loadout. \<open>RAID_VEHICLE_ITEMS\<close> and \<open>RAID_TAG_ITEMS\<close> come from a version of
  lib/zones.ts that is not among the sources; they are parameters. The stored
  configuration is read as \<open>{ vehicle?, tag? }\<close>.
\<close>

definition current_raid_loadout :: "db \<Rightarrow> nat \<Rightarrow> string option \<times> string option" where
  "current_raid_loadout d dv =
     (case maybeSingle (filter (\<lambda>x. c_developer_id x = dv \<and> c_item_id x = ''raid_loadout'')
             (developer_customizations d)) of
        None \<Rightarrow> (None, None)
      | Some c \<Rightarrow> (case config c of RaidLoadout v t \<Rightarrow> (v, t) | Loadout a b c \<Rightarrow> (None, None)))"

text \<open>
  The owned items of the raid loadout: the select joins \<open>items!inner\<close>, so that only the
  purchases of an item of the catalogue count.
\<close>

definition ownedRaidSet :: "db \<Rightarrow> nat \<Rightarrow> string set" where
  "ownedRaidSet d dv =
     set (map item_id (filter (\<lambda>p. developer_id p = dv \<and> status p = ''completed'' \<and>
            list_ex (\<lambda>i. item_key i = item_id p) (items d)) (purchases d)))"

text \<open>
  The validation of one field: \<open>undefined\<close> keeps the current value, the free value is
  always allowed, another value must be a raid item that is owned. \<open>None\<close> is the 403;
  \<open>null\<close> is not \<open>undefined\<close>, is not the free value and is in no list, so it ends there.
\<close>

definition choose_raid_item ::
  "json_field \<Rightarrow> string \<Rightarrow> string \<Rightarrow> string list \<Rightarrow> string set \<Rightarrow> string option" where
  "choose_raid_item wanted current free allowed owned =
     (case wanted of
        Undefined \<Rightarrow> Some current
      | Null \<Rightarrow> None
      | Str v \<Rightarrow>
          if v = free then Some free
          else if v \<in> set allowed \<and> v \<in> owned then Some v
          else None)"

definition raid_loadout_POST ::
  "string list \<Rightarrow> string list \<Rightarrow> raid_loadout_request \<Rightarrow> db \<Rightarrow> (nat \<times> loadout_reply) \<times> db" where
  "raid_loadout_POST RAID_VEHICLE_ITEMS RAID_TAG_ITEMS req d =
     (case rl_user req of
        None \<Rightarrow> ((401, LoadoutError ''Not authenticated''), d)
      | Some u \<Rightarrow>
          (case single (filter (\<lambda>x. github_login x = githubLogin_of u) (developers d)) of
             None \<Rightarrow> ((403, LoadoutError ''Must own a claimed building''), d)
           | Some dev \<Rightarrow>
               if \<not> claimed dev \<or> claimed_by dev \<noteq> Some (user_id u)
               then ((403, LoadoutError ''Must own a claimed building''), d)
               else (case rl_body req of
                  None \<Rightarrow> ((500, UnhandledRejection), d)
                | Some b \<Rightarrow>
                    (let owned = ownedRaidSet d (dev_id dev);
                         current = current_raid_loadout d (dev_id dev);
                         vehicle0 = (case fst current of None \<Rightarrow> ''airplane'' | Some v \<Rightarrow> v);
                         tag0 = (case snd current of None \<Rightarrow> ''default'' | Some t \<Rightarrow> t)
                     in case choose_raid_item (rl_vehicle b) vehicle0 ''airplane''
                               RAID_VEHICLE_ITEMS owned of
                          None \<Rightarrow> ((403, LoadoutError ''Vehicle not owned or invalid''), d)
                        | Some vehicle1 \<Rightarrow>
                            (case choose_raid_item (rl_tag b) tag0 ''default'' RAID_TAG_ITEMS owned of
                               None \<Rightarrow> ((403, LoadoutError ''Tag not owned or invalid''), d)
                             | Some tag \<Rightarrow>
                                 ((200, RaidLoadoutSaved vehicle1 tag),
                                  upsert_customization d
                                    \<lparr> c_developer_id = dev_id dev, c_item_id = ''raid_loadout'',
                                      config = RaidLoadout (Some vehicle1) (Some tag),
                                      updated_at = rl_now req \<rparr>))))))"

text \<open>Requests without a session, and one of Alice.\<close>

definition anonymous_loadout :: loadout_request where
  "anonymous_loadout =
     \<lparr> l_user = None, l_body = Some \<lparr> crown = Some ''flag'', roof = None, aura = None \<rparr>,
       l_now = 20000 \<rparr>"

definition anonymous_raid_loadout :: raid_loadout_request where
  "anonymous_raid_loadout =
     \<lparr> rl_user = None, rl_body = Some \<lparr> rl_vehicle = Str ''raid_rocket'', rl_tag = Undefined \<rparr>,
       rl_now = 20000 \<rparr>"

definition loadout_item :: item where
  "loadout_item = \<lparr> item_key = ''loadout'', item_name = ''Loadout'', price_usd_cents = 0,
                    price_brl_cents = 0, is_active = False \<rparr>"

section \<open>Kudos (POST of the kudos route)\<close>





text \<open>\<open>insert\<close> into \<open>activity_feed\<close>: a new id, and the time of the insert.\<close>

definition insert_feed :: "db \<Rightarrow> nat \<Rightarrow> feed_event \<Rightarrow> db" where
  "insert_feed d t e =
     d\<lparr>activity_feed := activity_feed d @ [e\<lparr>ev_id := uuid_seq d, created_at := t\<rparr>],
       uuid_seq := Suc (uuid_seq d)\<rparr>"

text \<open>\<open>insertError.code?.includes("23505")\<close>\<close>

definition is_duplicate_key :: "pg_error \<Rightarrow> bool" where
  "is_duplicate_key e \<longleftrightarrow> sublist ''23505'' (pg_code e)"




definition nineteen_kudos :: "kudos list" where
  "nineteen_kudos =
     map (\<lambda>i. \<lparr> giver_id = 1, receiver_id = i, given_date = ''2026-03-01'' \<rparr>) [3..<22]"

text \<open>The city of that day: Alice, Bob, and the developers 3 to 21.\<close>

definition neighbours :: "developer list" where
  "neighbours = map citizen [3..<22]"


section \<open>The activity feed (GET of api/feed)\<close>

text \<open>
  \<open>parseInt(s, 10)\<close> on a string of code units: the white space in front is skipped, a
  sign is read, and the decimal digits that follow are the number; with no digit the result
  is NaN, here \<open>None\<close>. (The number is a double: a long digit string is rounded, which
  \<open>Math.max(1, _)\<close> and \<open>Math.min(50, _)\<close> do not see.)
\<close>

definition StrWhiteSpaceChar :: "nat \<Rightarrow> bool" where
  "StrWhiteSpaceChar c \<longleftrightarrow>
     c \<in> {9, 10, 11, 12, 13, 32, 160, 5760, 8232, 8233, 8239, 8287, 12288, 65279} \<or>
     (8192 \<le> c \<and> c \<le> 8202)"

definition decimal_digit :: "nat \<Rightarrow> bool" where
  "decimal_digit c \<longleftrightarrow> 48 \<le> c \<and> c \<le> 57"

definition parseInt :: "jstring \<Rightarrow> int option" where
  "parseInt s =
     (let t = dropWhile StrWhiteSpaceChar s;
          sign = (case t of [] \<Rightarrow> 1 | c # cs \<Rightarrow> if c = 45 then - 1 else (1 :: int));
          r = (case t of [] \<Rightarrow> [] | c # cs \<Rightarrow> if c = 45 \<or> c = 43 then cs else t);
          ds = takeWhile decimal_digit r
      in if ds = [] then None
         else Some (sign * int (foldl (\<lambda>a c. 10 * a + (c - 48)) 0 ds)))"

text \<open>
  \<open>Math.min(50, Math.max(1, parseInt(searchParams.get("limit") ?? "20", 10)))\<close>; both
  functions return NaN on NaN.
\<close>

definition feed_limit :: "jstring option \<Rightarrow> int option" where
  "feed_limit param =
     (case parseInt (case param of None \<Rightarrow> js ''20'' | Some s \<Rightarrow> s) of
        None \<Rightarrow> None
      | Some n \<Rightarrow> Some (min 50 (max 1 n)))"

text \<open>
  The request: the parameters \<open>limit\<close> and \<open>before\<close> (the id of the cursor event; \<open>None\<close>
  when the parameter is missing, empty or not a uuid, which all leave the query without a
  cursor).
\<close>

record feed_request =
  limit_param :: "jstring option"
  before :: "nat option"

text \<open>
  What the data API does with \<open>.limit(NaN)\<close>, that is with \<open>limit=NaN\<close> in the query
  string, is not decided by this repository: PostgREST reads the parameter with
  \<open>readMaybe\<close> and applies no limit when it is not a number; an API that validates the
  parameter answers with an error, and the handler reads \<open>null\<close>.
\<close>

datatype nan_limit = LimitIgnored | LimitRejected

text \<open>
  The query: the events before the cursor, newest first (\<open>sort_key\<close> is stable, so equal
  times keep the order of the table), at most \<open>limit\<close> of them. \<open>None\<close> is \<open>data: null\<close>.
\<close>

definition feed_query :: "nan_limit \<Rightarrow> db \<Rightarrow> int option \<Rightarrow> nat option \<Rightarrow> feed_event list option" where
  "feed_query api d limit cursor =
     (let rows = sort_key (\<lambda>e. - int (created_at e))
                   (filter (\<lambda>e. case cursor of None \<Rightarrow> True | Some c \<Rightarrow> created_at e < c)
                      (activity_feed d))
      in case limit of
           Some n \<Rightarrow> Some (take (nat n) rows)
         | None \<Rightarrow> (case api of LimitIgnored \<Rightarrow> Some rows | LimitRejected \<Rightarrow> None))"

text \<open>An event of the answer, with the developers of \<open>devMap\<close>.\<close>

record enriched_event =
  event :: feed_event
  actor :: "(string \<times> string option) option"
  target :: "(string \<times> string option) option"

definition devIds :: "feed_event list \<Rightarrow> nat list" where
  "devIds events =
     filter (\<lambda>i. i \<noteq> 0)
       (concat (map (\<lambda>e. (case actor_id e of None \<Rightarrow> [] | Some a \<Rightarrow> [a]) @
                          (case target_id e of None \<Rightarrow> [] | Some t \<Rightarrow> [t])) events))"

definition devMap :: "db \<Rightarrow> feed_event list \<Rightarrow> nat \<rightharpoonup> string \<times> string option" where
  "devMap d events =
     foldl (\<lambda>m x. m(dev_id x \<mapsto> (github_login x, avatar_url x))) Map.empty
       (filter (\<lambda>x. dev_id x \<in> set (devIds events)) (developers d))"

definition enrich :: "db \<Rightarrow> feed_event list \<Rightarrow> enriched_event list" where
  "enrich d events =
     map (\<lambda>e. \<lparr> event = e,
               actor = (case actor_id e of None \<Rightarrow> None
                        | Some i \<Rightarrow> if i = 0 then None else devMap d events i),
               target = (case target_id e of None \<Rightarrow> None
                         | Some i \<Rightarrow> if i = 0 then None else devMap d events i) \<rparr>) events"

record feed_page =
  events :: "enriched_event list"
  has_more :: bool

text \<open>\<open>events.length === limit\<close>: a comparison with NaN is false.\<close>

definition feed_GET :: "nan_limit \<Rightarrow> feed_request \<Rightarrow> db \<Rightarrow> nat \<times> feed_page" where
  "feed_GET api req d =
     (let limit = feed_limit (limit_param req);
          cursor = (case before req of
                      None \<Rightarrow> None
                    | Some b \<Rightarrow> map_option created_at
                                 (single (filter (\<lambda>e. ev_id e = b) (activity_feed d))))
      in case feed_query api d limit cursor of
           None \<Rightarrow> (200, \<lparr> events = [], has_more = False \<rparr>)
         | Some evs \<Rightarrow>
             if evs = [] then (200, \<lparr> events = [], has_more = False \<rparr>)
             else (200, \<lparr> events = enrich d evs,
                          has_more = (case limit of None \<Rightarrow> False | Some n \<Rightarrow> int (length evs) = n) \<rparr>))"

text \<open>A feed of 51 events, and requests with a limit of 2 and with a limit that is no number.\<close>

definition busy_feed :: "feed_event list" where
  "busy_feed =
     map (\<lambda>i. \<lparr> ev_id = i, event_type = ''kudos_given'', actor_id = Some 1, target_id = Some 2,
                metadata = KudosGiven ''alice'' ''bob'', created_at = 1000 + i \<rparr>) [0..<51]"

definition feed_db :: "feed_event list \<Rightarrow> db" where
  "feed_db es = (shop_db [] 0)\<lparr>activity_feed := es\<rparr>"

definition feed_page_2 :: feed_request where
  "feed_page_2 = \<lparr> limit_param = Some (js ''2''), before = None \<rparr>"

definition feed_page_abc :: feed_request where
  "feed_page_abc = \<lparr> limit_param = Some (js ''abc''), before = None \<rparr>"

section \<open>The achievement script (main)\<close>

text \<open>
  The selects of the script go through the data API. It returns at most \<open>max_rows\<close> rows of
  a select (the setting \<open>db-max-rows\<close> of PostgREST; 1000 on a Supabase project, unless it
  is configured otherwise; the analytics report reads its tables page by page, in
  steps of 1000), the first ones in the order of the query, or in the order of the table
  where the query has none. A select can also fail: then \<open>data\<close> is \<open>null\<close>. The sources
  decide neither; both are parameters. The selects of a run are counted from 1.
\<close>

record data_api =
  max_rows :: "nat option"
  failing :: "nat list"

definition select_rows :: "data_api \<Rightarrow> nat \<Rightarrow> 'a list \<Rightarrow> 'a list option" where
  "select_rows api k rows =
     (if k \<in> set (failing api) then None
      else Some (case max_rows api of None \<Rightarrow> rows | Some n \<Rightarrow> take n rows))"

text \<open>Lines 34 to 56: the achievements and the developers; an error ends the run.\<close>

definition loaded_achievements :: "data_api \<Rightarrow> db \<Rightarrow> achievement list option" where
  "loaded_achievements api d = select_rows api 1 (sort_key sort_order (achievements d))"

definition loaded_developers :: "data_api \<Rightarrow> db \<Rightarrow> developer list option" where
  "loaded_developers api d = select_rows api 2 (sort_key rank (developers d))"

text \<open>
  Lines 58 to 78: the existing unlocks and the gifts. Their errors are not read:
  \<open>existing ?? []\<close>, \<open>giftsSent ?? []\<close>, \<open>giftsReceived ?? []\<close>.
\<close>

definition existing_rows :: "data_api \<Rightarrow> db \<Rightarrow> unlock list" where
  "existing_rows api d =
     (case select_rows api 3 (developer_achievements d) of None \<Rightarrow> [] | Some rows \<Rightarrow> rows)"

definition giftsSent_rows :: "data_api \<Rightarrow> db \<Rightarrow> purchase list" where
  "giftsSent_rows api d =
     (case select_rows api 4
             (filter (\<lambda>p. status p = ''completed'' \<and> gifted_to p \<noteq> None) (purchases d)) of
        None \<Rightarrow> [] | Some rows \<Rightarrow> rows)"

definition giftsReceived_rows :: "data_api \<Rightarrow> db \<Rightarrow> purchase list" where
  "giftsReceived_rows api d =
     (case select_rows api 5
             (filter (\<lambda>p. status p = ''completed'' \<and> gifted_to p \<noteq> None) (purchases d)) of
        None \<Rightarrow> [] | Some rows \<Rightarrow> rows)"

text \<open>The key \<open>`${dev.id}_${a.id}`\<close> of the set of the existing unlocks.\<close>

definition unlock_key :: "nat \<Rightarrow> string \<Rightarrow> string" where
  "unlock_key dv a = string_of_nat dv @ ''_'' @ a"

definition existingSet :: "unlock list \<Rightarrow> string set" where
  "existingSet existing =
     set (map (\<lambda>r. unlock_key (u_developer_id r) (u_achievement_id r)) existing)"

text \<open>Lines 80 to 87: the gifts of a developer, counted over the rows that were loaded.\<close>

definition giftsSentMap :: "purchase list \<Rightarrow> nat \<Rightarrow> nat" where
  "giftsSentMap giftsSent dv = length (filter (\<lambda>r. developer_id r = dv) giftsSent)"

definition giftsReceivedMap :: "purchase list \<Rightarrow> nat \<Rightarrow> nat" where
  "giftsReceivedMap giftsReceived dv = length (filter (\<lambda>r. gifted_to r = Some dv) giftsReceived)"

record ach_stats =
  st_contributions :: nat
  st_public_repos :: nat
  st_total_stars :: nat
  st_referral_count :: nat
  st_kudos_count :: nat
  st_gifts_sent :: nat
  st_gifts_received :: nat

definition stats_of :: "data_api \<Rightarrow> db \<Rightarrow> developer \<Rightarrow> ach_stats" where
  "stats_of api d dev =
     \<lparr> st_contributions = contributions dev, st_public_repos = public_repos dev,
       st_total_stars = total_stars dev, st_referral_count = referral_count dev,
       st_kudos_count = kudos_count dev,
       st_gifts_sent = giftsSentMap (giftsSent_rows api d) (dev_id dev),
       st_gifts_received = giftsReceivedMap (giftsReceived_rows api d) (dev_id dev) \<rparr>"

text \<open>The \<open>switch\<close> on the category; a category that is not listed never qualifies.\<close>

definition qualifies :: "ach_stats \<Rightarrow> achievement \<Rightarrow> bool" where
  "qualifies st a =
     (if category a = ''commits'' then int (st_contributions st) \<ge> threshold a
      else if category a = ''repos'' then int (st_public_repos st) \<ge> threshold a
      else if category a = ''stars'' then int (st_total_stars st) \<ge> threshold a
      else if category a = ''social'' then int (st_referral_count st) \<ge> threshold a
      else if category a = ''kudos'' then int (st_kudos_count st) \<ge> threshold a
      else if category a = ''gifts_sent'' then int (st_gifts_sent st) \<ge> threshold a
      else if category a = ''gifts_received'' then int (st_gifts_received st) \<ge> threshold a
      else False)"

text \<open>Lines 118 to 136: an achievement of the existing set is skipped.\<close>

definition newUnlocks :: "data_api \<Rightarrow> db \<Rightarrow> achievement list \<Rightarrow> developer \<Rightarrow> achievement list" where
  "newUnlocks api d achs dev =
     filter (\<lambda>a. unlock_key (dev_id dev) (ach_id a) \<notin> existingSet (existing_rows api d) \<and>
                 qualifies (stats_of api d dev) a)
       achs"

text \<open>Lines 138 to 166: the rows that one developer adds to the three batches.\<close>

definition unlockRows_of :: "developer \<Rightarrow> achievement list \<Rightarrow> unlock list" where
  "unlockRows_of dev new =
     map (\<lambda>a. \<lparr> u_developer_id = dev_id dev, u_achievement_id = ach_id a \<rparr>) new"

definition purchaseRows_of :: "developer \<Rightarrow> achievement list \<Rightarrow> purchase list" where
  "purchaseRows_of dev new =
     concat (map (\<lambda>a.
        case reward_item_id a of
          None \<Rightarrow> []
        | Some it \<Rightarrow>
            if reward_type a = ''unlock_item'' \<and> it \<noteq> [] then
              [\<lparr> p_id = 0, developer_id = dev_id dev, item_id = it, provider = ''achievement'',
                 provider_tx_id = Some (''achievement_'' @ string_of_nat (dev_id dev) @ ''_'' @ ach_id a),
                 amount_cents = 0, currency = ''usd'', status = ''completed'', gifted_to = None \<rparr>]
            else []) new)"

definition feedEvents_of :: "developer \<Rightarrow> achievement list \<Rightarrow> feed_event list" where
  "feedEvents_of dev new =
     (if new = [] then []
      else [\<lparr> ev_id = 0, event_type = ''achievement_unlocked'', actor_id = Some (dev_id dev),
              target_id = None,
              metadata = (case new of
                  [a] \<Rightarrow> AchievementOne (github_login dev) (ach_id a) (ach_name a) (tier a)
                | _ \<Rightarrow> AchievementMany (github_login dev) (length new)
                         (map (\<lambda>a. (ach_id a, ach_name a, tier a)) new)),
              created_at = 0 \<rparr>])"

text \<open>
  \<open>upsert(unlockRows, { onConflict: "developer_id,achievement_id" })\<close>: one statement. A
  batch with two rows of one key, or with a row that violates a foreign key, fails as a
  whole; otherwise the rows whose key is new are added (the others are rewritten with the
  values they have).
\<close>

definition upsert_unlocks :: "db \<Rightarrow> unlock list \<Rightarrow> pg_error + db" where
  "upsert_unlocks d rows =
     (if \<not> distinct (map (\<lambda>r. (u_developer_id r, u_achievement_id r)) rows)
        then Inl cardinality_violation
      else if \<not> list_all (\<lambda>r. list_ex (\<lambda>x. dev_id x = u_developer_id r) (developers d)) rows
        then Inl (foreign_key_violation ''developer_achievements_developer_id_fkey'')
      else if \<not> list_all (\<lambda>r. list_ex (\<lambda>x. ach_id x = u_achievement_id r) (achievements d)) rows
        then Inl (foreign_key_violation ''developer_achievements_achievement_id_fkey'')
      else Inr (d\<lparr>developer_achievements := developer_achievements d @
                  filter (\<lambda>r. \<not> list_ex (\<lambda>x. u_developer_id x = u_developer_id r \<and>
                                              u_achievement_id x = u_achievement_id r)
                                  (developer_achievements d)) rows\<rparr>))"

text \<open>Lines 187 to 201: the rewards are inserted one by one, and a refused row is skipped.\<close>

definition grant_reward :: "purchase \<Rightarrow> db \<Rightarrow> db" where
  "grant_reward row d = (case insert_purchase d row of Inl e2 \<Rightarrow> d | Inr (r, d') \<Rightarrow> d')"

definition main :: "data_api \<Rightarrow> nat \<Rightarrow> db \<Rightarrow> db" where
  "main api t d =
     (case loaded_achievements api d of
        None \<Rightarrow> d
      | Some achs \<Rightarrow>
          (case loaded_developers api d of
             None \<Rightarrow> d
           | Some devs \<Rightarrow>
               (let unlockRows = concat (map (\<lambda>dev. unlockRows_of dev (newUnlocks api d achs dev)) devs);
                    purchaseRows = concat (map (\<lambda>dev. purchaseRows_of dev (newUnlocks api d achs dev)) devs);
                    feedEvents = concat (map (\<lambda>dev. feedEvents_of dev (newUnlocks api d achs dev)) devs);
                    totalUnlocks = sum_list (map (\<lambda>dev. length (newUnlocks api d achs dev)) devs)
                in if totalUnlocks = 0 then d
                   else
                     (let d1 = (case upsert_unlocks d unlockRows of Inl e1 \<Rightarrow> d | Inr d' \<Rightarrow> d');
                          d2 = (if purchaseRows \<noteq> [] then fold grant_reward purchaseRows d1 else d1)
                      in fold (\<lambda>e d3. insert_feed d3 t e) feedEvents d2))))"

text \<open>The unlocks of the table, as pairs.\<close>

definition unlocked :: "db \<Rightarrow> nat \<Rightarrow> string \<Rightarrow> bool" where
  "unlocked d dv a \<longleftrightarrow>
     list_ex (\<lambda>r. u_developer_id r = dv \<and> u_achievement_id r = a) (developer_achievements d)"

text \<open>A data API that returns every row, and the one of a Supabase project.\<close>

definition unlimited :: data_api where
  "unlimited = \<lparr> max_rows = None, failing = [] \<rparr>"

definition capped :: "nat \<Rightarrow> data_api" where
  "capped n = \<lparr> max_rows = Some n, failing = [] \<rparr>"

definition supabase :: data_api where
  "supabase = capped 1000"

text \<open>A catalogue of two achievements; Bob, with 120 contributions, qualifies for both.\<close>

definition first_push :: achievement where
  "first_push = \<lparr> ach_id = ''first_push'', category = ''commits'', ach_name = ''First Push'',
                  threshold = 1, tier = ''bronze'', reward_type = ''unlock_item'',
                  reward_item_id = Some ''flag'', sort_order = 1 \<rparr>"

definition committed :: achievement where
  "committed = \<lparr> ach_id = ''committed'', category = ''commits'', ach_name = ''Committed'',
                 threshold = 100, tier = ''silver'', reward_type = ''exclusive_badge'',
                 reward_item_id = None, sort_order = 2 \<rparr>"

definition ach_db :: "unlock list \<Rightarrow> db" where
  "ach_db us = (shop_db [] 0)\<lparr>achievements := [first_push, committed],
                              developer_achievements := us\<rparr>"

definition bob_unlocks :: "unlock list" where
  "bob_unlocks = [\<lparr> u_developer_id = 2, u_achievement_id = ''first_push'' \<rparr>,
                  \<lparr> u_developer_id = 2, u_achievement_id = ''committed'' \<rparr>]"

text \<open>The unlocks of a developer who has both achievements.\<close>

definition all_unlocks :: "nat \<Rightarrow> unlock list" where
  "all_unlocks i = [\<lparr> u_developer_id = i, u_achievement_id = ''first_push'' \<rparr>,
                    \<lparr> u_developer_id = i, u_achievement_id = ''committed'' \<rparr>]"

text \<open>
  A city of \<open>n\<close> developers with 120 contributions each, numbered and ranked from 1, before
  the first run of the script: no unlocks, no purchases, no events.
\<close>

definition city :: "nat \<Rightarrow> db" where
  "city n =
     \<lparr> developers = map citizen [1..<Suc n], items = [flag_item, billboard_item], purchases = [],
       developer_customizations = [], raids = [], achievements = [first_push, committed],
       developer_achievements = [], activity_feed = [], developer_kudos = [], uuid_seq = 0 \<rparr>"

chapter \<open>The properties\<close>

section \<open>Properties of the sky ads\<close>

lemma validateAds_set: "set (validateAds ads) = {a \<in> set ads. ad_ok a}"
  by (simp add: validateAds_def)

lemma validateAds_sorted: "priority_desc (validateAds ads)"
proof -
  have "sorted (map (\<lambda>a. - priority a) (validateAds ads))"
    unfolding validateAds_def by (rule sorted_sort_key)
  then show ?thesis
    by (simp add: priority_desc_def sorted_map sorted_wrt_iff_nth_less)
qed

lemma priority_desc_filter: "priority_desc xs \<Longrightarrow> priority_desc (filter P xs)"
  unfolding priority_desc_def by (rule sorted_wrt_filter)

lemma priority_desc_take: "priority_desc xs \<Longrightarrow> priority_desc (take n xs)"
  unfolding priority_desc_def by (rule sorted_wrt_take)

lemma ad_ok_D:
  assumes "ad_ok a"
  shows "length (ad_text a) \<le> 80" "HEX_COLOR_PATTERN (color a)" "HEX_COLOR_PATTERN (bgColor a)"
    "link_ok a"
  using assms
  by (auto simp: ad_ok_def link_ok_def MAX_TEXT_LENGTH_def split: if_splits option.splits)

lemma HEX_COLOR_PATTERN_length: "HEX_COLOR_PATTERN s \<Longrightarrow> length s = 7"
  by (auto simp: HEX_COLOR_PATTERN_def split: list.splits)

lemma in_planeAds: "a \<in> set (planeAds (getActiveAds ads)) \<Longrightarrow> ad_ok a \<and> vehicle a = plane"
  by (auto simp: getActiveAds_def Let_def validateAds_set dest!: in_set_takeD)

lemma in_blimpAds: "a \<in> set (blimpAds (getActiveAds ads)) \<Longrightarrow> ad_ok a \<and> vehicle a = blimp"
  by (auto simp: getActiveAds_def Let_def validateAds_set dest!: in_set_takeD)

text \<open>
  Claim C8, as amended. For every input list, \<open>getActiveAds\<close> returns at most 3 plane ads
  and at most 2 blimp ads; every returned ad has a text of at most 80 code units, a
  \<open>color\<close> and a \<open>bgColor\<close> that match \<open>#RRGGBB\<close>, and a link that, when present and not
  the empty string, starts with \<open>https://\<close> or \<open>mailto:\<close>; each returned list is in
  non-increasing priority order.
\<close>

theorem getActiveAds_valid:
  "length (planeAds (getActiveAds ads)) \<le> 3 \<and>
   length (blimpAds (getActiveAds ads)) \<le> 2 \<and>
   (\<forall>a \<in> set (planeAds (getActiveAds ads)) \<union> set (blimpAds (getActiveAds ads)).
      length (ad_text a) \<le> 80 \<and> HEX_COLOR_PATTERN (color a) \<and> HEX_COLOR_PATTERN (bgColor a) \<and>
      (\<forall>l. link a = Some l \<longrightarrow> l \<noteq> [] \<longrightarrow> ALLOWED_LINK_PATTERN l)) \<and>
   priority_desc (planeAds (getActiveAds ads)) \<and>
   priority_desc (blimpAds (getActiveAds ads))"
proof -
  have len: "length (planeAds (getActiveAds ads)) \<le> 3" "length (blimpAds (getActiveAds ads)) \<le> 2"
    by (simp_all add: getActiveAds_def Let_def MAX_PLANES_def MAX_BLIMPS_def)
  have ok: "length (ad_text a) \<le> 80 \<and> HEX_COLOR_PATTERN (color a) \<and> HEX_COLOR_PATTERN (bgColor a) \<and>
      (\<forall>l. link a = Some l \<longrightarrow> l \<noteq> [] \<longrightarrow> ALLOWED_LINK_PATTERN l)"
    if "a \<in> set (planeAds (getActiveAds ads)) \<union> set (blimpAds (getActiveAds ads))" for a
  proof -
    from that have "ad_ok a" using in_planeAds in_blimpAds by blast
    then show ?thesis using ad_ok_D [of a] by (auto simp: link_ok_def)
  qed
  have ord: "priority_desc (planeAds (getActiveAds ads))" "priority_desc (blimpAds (getActiveAds ads))"
    by (simp_all add: getActiveAds_def Let_def priority_desc_take priority_desc_filter
        validateAds_sorted)
  from len ok ord show ?thesis by blast
qed

theorem getActiveAds_valid_witness:
  "planeAds (getActiveAds [site_ad]) = [site_ad] \<and>
   link site_ad = Some (js ''https://thegitcity.com'') \<and>
   ALLOWED_LINK_PATTERN (js ''https://thegitcity.com'') \<and> length (ad_text site_ad) \<le> 80"
proof -
  have ok: "ad_ok site_ad"
    by (simp add: ad_ok_def site_ad_def js_def MAX_TEXT_LENGTH_def ALLOWED_LINK_PATTERN_def
        HEX_COLOR_PATTERN_def hex_digit_def)
  have ret: "planeAds (getActiveAds [site_ad]) = [site_ad]"
    using ok by (simp add: getActiveAds_def validateAds_def MAX_PLANES_def) (simp add: site_ad_def)
  have lk: "link site_ad = Some (js ''https://thegitcity.com'')"
    by (simp add: site_ad_def)
  have ne: "js ''https://thegitcity.com'' \<noteq> []"
    by (simp add: js_def)
  from getActiveAds_valid [of "[site_ad]"] ret lk ne show ?thesis
    by simp
qed

text \<open>
  Claim C8 as stated fails where the link is the empty string: the link is present, the
  ad passes the filter (\<open>ad.link &&\<close> is falsy) and is returned, and its link starts with
  neither \<open>https://\<close> nor \<open>mailto:\<close>.
\<close>

theorem getActiveAds_empty_link_counterexample:
  "planeAds (getActiveAds [empty_link_ad]) = [empty_link_ad] \<and>
   link empty_link_ad = Some [] \<and> \<not> ALLOWED_LINK_PATTERN []"
  by (simp add: getActiveAds_def validateAds_def MAX_PLANES_def ad_ok_def empty_link_ad_def js_def
      MAX_TEXT_LENGTH_def ALLOWED_LINK_PATTERN_def HEX_COLOR_PATTERN_def hex_digit_def)

section \<open>The constraints of the database hold in every state\<close>

lemma insert_purchase_Inr:
  assumes "insert_purchase d v = Inr (r, d')"
  shows "r = v\<lparr>p_id := uuid_seq d\<rparr>"
    and "purchases_check d (purchases d) r = None"
    and "d' = d\<lparr>purchases := purchases d @ [r], uuid_seq := Suc (uuid_seq d)\<rparr>"
  using assms by (auto simp: insert_purchase_def Let_def split: option.splits)

lemma update_purchase_Inr:
  assumes "update_purchase d i f = Inr d'"
  shows "d' = d\<lparr>purchases := map (\<lambda>x. if p_id x = i then (f x)\<lparr>p_id := i\<rparr> else x) (purchases d)\<rparr>"
    and "\<And>x. x \<in> set (purchases d) \<Longrightarrow> p_id x = i \<Longrightarrow>
           purchases_check d (filter (\<lambda>y. p_id y \<noteq> i) (purchases d)) ((f x)\<lparr>p_id := i\<rparr>) = None"
  using assms
  by (auto simp: update_purchase_def Let_def find_None_iff split: option.splits)

lemma purchases_check_pk:
  assumes "purchases_check d others r = None"
  shows "p_id r \<notin> p_id ` set others"
proof
  assume "p_id r \<in> p_id ` set others"
  then have "list_ex (\<lambda>x. p_id x = p_id r) others"
    unfolding list_ex_iff by (metis imageE)
  with assms show False by (simp add: purchases_check_def)
qed

lemma purchases_check_completed:
  assumes "purchases_check d others r = None" "status r = ''completed''"
    "x \<in> set others" "status x = ''completed''" "developer_id x = developer_id r"
  shows "item_id x \<noteq> item_id r"
  using assms by (auto simp: purchases_check_def list_ex_iff split: if_splits)

lemma unique_completedD:
  assumes "unique_completed d" "x \<in> set (purchases d)" "y \<in> set (purchases d)"
    "status x = ''completed''" "status y = ''completed''"
    "developer_id x = developer_id y" "item_id x = item_id y"
  shows "p_id x = p_id y"
  using assms(1) [unfolded unique_completed_def, rule_format, OF assms(2,3)] assms(4-7)
  by simp

lemma unique_completedI:
  assumes "\<And>x y. x \<in> set (purchases d) \<Longrightarrow> y \<in> set (purchases d) \<Longrightarrow>
     status x = ''completed'' \<Longrightarrow> status y = ''completed'' \<Longrightarrow>
     developer_id x = developer_id y \<Longrightarrow> item_id x = item_id y \<Longrightarrow> p_id x = p_id y"
  shows "unique_completed d"
  unfolding unique_completed_def using assms by blast

lemma pk_insert:
  assumes "pk_purchases d" "insert_purchase d v = Inr (r, d')"
  shows "pk_purchases d'"
proof -
  note ins = insert_purchase_Inr [OF assms(2)]
  have "p_id r \<notin> p_id ` set (purchases d)"
    using ins(2) by (rule purchases_check_pk)
  then show ?thesis
    using assms(1) by (simp add: pk_purchases_def ins(3))
qed

lemma map_p_id_update:
  "map p_id (map (\<lambda>x. if p_id x = i then (f x)\<lparr>p_id := i\<rparr> else x) ps) = map p_id ps"
  by (induction ps) auto

lemma pk_update:
  assumes "pk_purchases d" "update_purchase d i f = Inr d'"
  shows "pk_purchases d'"
  using assms(1) unfolding pk_purchases_def update_purchase_Inr(1) [OF assms(2)]
  by (simp add: map_p_id_update del: map_map)

lemma pk_delete: "pk_purchases d \<Longrightarrow> pk_purchases (delete_purchase d i)"
  by (simp add: pk_purchases_def delete_purchase_def distinct_map_filter)

lemma uc_insert:
  assumes "unique_completed d" "insert_purchase d v = Inr (r, d')"
  shows "unique_completed d'"
proof -
  note ins = insert_purchase_Inr [OF assms(2)]
  have new: "item_id x \<noteq> item_id r"
    if "x \<in> set (purchases d)" "status x = ''completed''" "status r = ''completed''"
      "developer_id x = developer_id r" for x
    using purchases_check_completed [OF ins(2) that(3) that(1) that(2) that(4)] .
  have ps: "purchases d' = purchases d @ [r]"
    by (simp add: ins(3))
  show ?thesis
  proof (rule unique_completedI)
    fix x y
    assume x: "x \<in> set (purchases d')" and y: "y \<in> set (purchases d')"
      and c: "status x = ''completed''" "status y = ''completed''"
        "developer_id x = developer_id y" "item_id x = item_id y"
    from x y have "x \<in> set (purchases d) \<or> x = r" "y \<in> set (purchases d) \<or> y = r"
      unfolding ps by auto
    then consider "x \<in> set (purchases d)" "y \<in> set (purchases d)"
      | "x = r" "y \<in> set (purchases d)" | "x \<in> set (purchases d)" "y = r" | "x = r" "y = r"
      by blast
    then show "p_id x = p_id y"
    proof cases
      case 1
      with c show ?thesis
        by (intro unique_completedD [OF assms(1)]) simp_all
    next
      case 2
      with new [of y] c show ?thesis by simp
    next
      case 3
      with new [of x] c show ?thesis by simp
    next
      case 4
      then show ?thesis by simp
    qed
  qed
qed

lemma uc_update:
  assumes "unique_completed d" "update_purchase d i f = Inr d'"
  shows "unique_completed d'"
proof -
  note upd = update_purchase_Inr [OF assms(2)]
  define g where "g = (\<lambda>x. if p_id x = i then (f x)\<lparr>p_id := i\<rparr> else x)"
  have g_id: "p_id (g x) = p_id x" for x
    by (simp add: g_def)
  have g_other: "g x = x" if "p_id x \<noteq> i" for x
    using that by (simp add: g_def)
  have g_upd: "g x = (f x)\<lparr>p_id := i\<rparr>" if "p_id x = i" for x
    using that by (simp add: g_def)
  have ps: "purchases d' = map g (purchases d)"
    by (simp add: upd(1) g_def)
  have new: "item_id y \<noteq> item_id (g x)"
    if "x \<in> set (purchases d)" "p_id x = i" "y \<in> set (purchases d)" "p_id y \<noteq> i"
      "status (g x) = ''completed''" "status y = ''completed''"
      "developer_id y = developer_id (g x)" for x y
  proof -
    have chk: "purchases_check d (filter (\<lambda>y. p_id y \<noteq> i) (purchases d)) (g x) = None"
      using upd(2) [OF that(1,2)] by (simp add: g_upd that(2))
    have mem: "y \<in> set (filter (\<lambda>y. p_id y \<noteq> i) (purchases d))"
      using that(3,4) by simp
    show ?thesis
      using purchases_check_completed [OF chk that(5) mem that(6) that(7)] .
  qed
  have pair: "p_id (g x) = p_id (g y)"
    if "x \<in> set (purchases d)" "y \<in> set (purchases d)"
      "status (g x) = ''completed''" "status (g y) = ''completed''"
      "developer_id (g x) = developer_id (g y)" "item_id (g x) = item_id (g y)" for x y
  proof -
    consider "p_id x = i" "p_id y = i" | "p_id x = i" "p_id y \<noteq> i"
      | "p_id x \<noteq> i" "p_id y = i" | "p_id x \<noteq> i" "p_id y \<noteq> i"
      by blast
    then show ?thesis
    proof cases
      case 1
      then show ?thesis by (simp add: g_id)
    next
      case 2
      then have "item_id y \<noteq> item_id (g x)"
        using new [of x y] that by (simp add: g_other)
      with 2 that(6) show ?thesis by (simp add: g_other)
    next
      case 3
      then have "item_id x \<noteq> item_id (g y)"
        using new [of y x] that by (simp add: g_other)
      with 3 that(6) show ?thesis by (simp add: g_other)
    next
      case 4
      then have "g x = x" "g y = y" by (simp_all add: g_other)
      with that show ?thesis
        by (intro unique_completedD [OF assms(1)]) simp_all
    qed
  qed
  show ?thesis
  proof (rule unique_completedI)
    fix x' y'
    assume xs: "x' \<in> set (purchases d')" and ys: "y' \<in> set (purchases d')"
      and c: "status x' = ''completed''" "status y' = ''completed''"
        "developer_id x' = developer_id y'" "item_id x' = item_id y'"
    from xs obtain x where x: "x' = g x" "x \<in> set (purchases d)"
      unfolding ps set_map by (rule imageE)
    from ys obtain y where y: "y' = g y" "y \<in> set (purchases d)"
      unfolding ps set_map by (rule imageE)
    from c show "p_id x' = p_id y'"
      unfolding x(1) y(1) by (intro pair [OF x(2) y(2)])
  qed
qed

lemma uc_delete:
  assumes "unique_completed d"
  shows "unique_completed (delete_purchase d i)"
proof (rule unique_completedI)
  fix x y
  assume "x \<in> set (purchases (delete_purchase d i))" "y \<in> set (purchases (delete_purchase d i))"
    and c: "status x = ''completed''" "status y = ''completed''"
      "developer_id x = developer_id y" "item_id x = item_id y"
  then have "x \<in> set (purchases d)" "y \<in> set (purchases d)"
    by (simp_all add: delete_purchase_def)
  with c show "p_id x = p_id y"
    by (intro unique_completedD [OF assms]) simp_all
qed

lemma insert_raid_Inr:
  assumes "insert_raid d v = Inr (r, d')"
  shows "raids_check d (raids d) r = None"
    and "d' = d\<lparr>raids := raids d @ [r], uuid_seq := Suc (uuid_seq d)\<rparr>"
  using assms by (auto simp: insert_raid_def Let_def split: option.splits)

lemma update_raid_Inr:
  assumes "update_raid d i f = Inr d'"
  shows "d' = d\<lparr>raids := map (\<lambda>x. if raid_id x = i then (f x)\<lparr>raid_id := i\<rparr> else x) (raids d)\<rparr>"
    and "\<And>x. x \<in> set (raids d) \<Longrightarrow> raid_id x = i \<Longrightarrow>
           raids_check d (filter (\<lambda>y. raid_id y \<noteq> i) (raids d)) ((f x)\<lparr>raid_id := i\<rparr>) = None"
  using assms
  by (auto simp: update_raid_def Let_def find_None_iff split: option.splits)

lemma raids_check_no_self: "raids_check d others r = None \<Longrightarrow> attacker_id r \<noteq> defender_id r"
  by (auto simp: raids_check_def split: if_splits)

lemma ns_insert:
  assumes "raids_no_self d" "insert_raid d v = Inr (r, d')"
  shows "raids_no_self d'"
  using assms(1) insert_raid_Inr [OF assms(2)] raids_check_no_self [of d "raids d" r]
  by (simp add: raids_no_self_def)

lemma ns_update:
  assumes "raids_no_self d" "update_raid d i f = Inr d'"
  shows "raids_no_self d'"
proof -
  note upd = update_raid_Inr [OF assms(2)]
  define g where "g = (\<lambda>x. if raid_id x = i then (f x)\<lparr>raid_id := i\<rparr> else x)"
  have rs: "raids d' = map g (raids d)"
    by (simp add: upd(1) g_def)
  have "attacker_id (g x) \<noteq> defender_id (g x)" if "x \<in> set (raids d)" for x
  proof (cases "raid_id x = i")
    case True
    with raids_check_no_self [OF upd(2) [OF that True]] show ?thesis by (simp add: g_def)
  next
    case False
    with assms(1) that show ?thesis by (simp add: raids_no_self_def g_def)
  qed
  then show ?thesis
    unfolding raids_no_self_def rs set_map by blast
qed

lemma ns_delete: "raids_no_self d \<Longrightarrow> raids_no_self (delete_raid d i)"
  by (simp add: raids_no_self_def delete_raid_def)

lemma ib_insert:
  assumes "ids_below d" "insert_purchase d v = Inr (r, d')"
  shows "ids_below d'"
proof -
  note ins = insert_purchase_Inr [OF assms(2)]
  have "p_id r = uuid_seq d"
    by (subst ins(1)) simp
  then show ?thesis
    using assms(1) by (auto simp: ids_below_def ins(3) less_Suc_eq)
qed

lemma ib_update:
  assumes "ids_below d" "update_purchase d i f = Inr d'"
  shows "ids_below d'"
proof -
  define g where "g = (\<lambda>x. if p_id x = i then (f x)\<lparr>p_id := i\<rparr> else x)"
  have g_id: "p_id (g x) = p_id x" for x
    by (simp add: g_def)
  have ps: "purchases d' = map g (purchases d)" and sq: "uuid_seq d' = uuid_seq d"
    by (simp_all add: update_purchase_Inr(1) [OF assms(2)] g_def)
  show ?thesis
    using assms(1) unfolding ids_below_def ps sq set_map by (auto simp: g_id)
qed

lemma ib_delete: "ids_below d \<Longrightarrow> ids_below (delete_purchase d i)"
  by (simp add: ids_below_def delete_purchase_def)

lemma ib_later:
  assumes "ids_below d" "purchases d' = purchases d" "uuid_seq d \<le> uuid_seq d'"
  shows "ids_below d'"
  using assms by (auto simp: ids_below_def)

lemma purchases_inv_cong:
  assumes "purchases d' = purchases d"
  shows "pk_purchases d' = pk_purchases d" "unique_completed d' = unique_completed d"
  using assms by (simp_all add: pk_purchases_def unique_completed_def)

lemma raids_inv_cong: "raids d' = raids d \<Longrightarrow> raids_no_self d' = raids_no_self d"
  by (simp add: raids_no_self_def)

lemma db_reachable_inv: "db_reachable d \<Longrightarrow> db_inv d"
proof (induction rule: db_reachable.induct)
  case (initial d)
  then show ?case
    by (simp add: db_inv_def pk_purchases_def ids_below_def unique_completed_def raids_no_self_def)
next
  case (p_insert d v r d')
  note ins = insert_purchase_Inr(3) [OF p_insert(2)]
  have "raids d' = raids d" "developers d' = developers d" by (simp_all add: ins)
  with p_insert show ?case
    using pk_insert [of d v r d'] ib_insert [of d v r d'] uc_insert [of d v r d']
      raids_inv_cong [of d' d]
    by (simp add: db_inv_def)
next
  case (p_update d i f d')
  note upd = update_purchase_Inr(1) [OF p_update(2)]
  have "raids d' = raids d" "developers d' = developers d" by (simp_all add: upd)
  with p_update show ?case
    using pk_update [of d i f d'] ib_update [of d i f d'] uc_update [of d i f d']
      raids_inv_cong [of d' d]
    by (simp add: db_inv_def)
next
  case (p_delete d i)
  have "raids (delete_purchase d i) = raids d" "developers (delete_purchase d i) = developers d"
    by (simp_all add: delete_purchase_def)
  with p_delete show ?case
    using pk_delete [of d i] ib_delete [of d i] uc_delete [of d i]
      raids_inv_cong [of "delete_purchase d i" d]
    by (simp add: db_inv_def)
next
  case (r_insert d w r' d')
  note ins = insert_raid_Inr(2) [OF r_insert(2)]
  have "purchases d' = purchases d" "developers d' = developers d" "uuid_seq d \<le> uuid_seq d'"
    by (simp_all add: ins)
  with r_insert show ?case
    using ns_insert [of d w r' d'] purchases_inv_cong [of d' d] ib_later [of d d']
    by (simp add: db_inv_def)
next
  case (r_update d i g d')
  note upd = update_raid_Inr(1) [OF r_update(2)]
  have "purchases d' = purchases d" "developers d' = developers d" "uuid_seq d \<le> uuid_seq d'"
    by (simp_all add: upd)
  with r_update show ?case
    using ns_update [of d i g d'] purchases_inv_cong [of d' d] ib_later [of d d']
    by (simp add: db_inv_def)
next
  case (r_delete d i)
  have "purchases (delete_raid d i) = purchases d" "developers (delete_raid d i) = developers d"
    "uuid_seq d \<le> uuid_seq (delete_raid d i)"
    by (simp_all add: delete_raid_def)
  with r_delete show ?case
    using ns_delete [of d i] purchases_inv_cong [of "delete_raid d i" d]
      ib_later [of d "delete_raid d i"]
    by (simp add: db_inv_def)
next
  case (other_tables d d')
  then show ?case
    using purchases_inv_cong [of d' d] raids_inv_cong [of d' d] ib_later [of d d']
    by (simp add: db_inv_def)
qed

lemma at_most_one:
  assumes "distinct (map f xs)" "\<And>x y. x \<in> set xs \<Longrightarrow> y \<in> set xs \<Longrightarrow> P x \<Longrightarrow> P y \<Longrightarrow> f x = f y"
  shows "length (filter P xs) \<le> 1"
proof (rule ccontr)
  assume "\<not> length (filter P xs) \<le> 1"
  then obtain a b r where ab: "filter P xs = a # b # r"
    by (cases "filter P xs"; cases "tl (filter P xs)") auto
  have "distinct (map f (filter P xs))"
    using assms(1) by (rule distinct_map_filter)
  with ab have "f a \<noteq> f b" by simp
  moreover have "a \<in> set (filter P xs)" "b \<in> set (filter P xs)" using ab by simp_all
  then have "a \<in> set xs" "b \<in> set xs" "P a" "P b" by simp_all
  ultimately show False using assms(2) by blast
qed

text \<open>The partial unique index, as a bound on the rows of a pair; it holds for every item.\<close>

lemma completed_at_most_one:
  assumes "db_inv d"
  shows "length (filter (completed_for dv it) (purchases d)) \<le> 1"
proof (rule at_most_one [where f = p_id])
  show "distinct (map p_id (purchases d))"
    using assms by (simp add: db_inv_def pk_purchases_def)
next
  fix x y
  assume xy: "x \<in> set (purchases d)" "y \<in> set (purchases d)"
    and c: "completed_for dv it x" "completed_for dv it y"
  have uc: "unique_completed d"
    using assms by (simp add: db_inv_def)
  show "p_id x = p_id y"
    using c by (intro unique_completedD [OF uc xy]) (simp_all add: completed_for_def)
qed

section \<open>The checkout handler\<close>

lemma checkout_pending_alt:
  "checkout_pending d cx =
     (case maybeSingle (filter (pending_for (dev_id (cx_dev cx)) (cx_item_id cx)) (purchases d)) of
        Some p \<Rightarrow> delete_purchase d (p_id p) | None \<Rightarrow> d)"
  unfolding checkout_pending_def pending_for_def ..

lemma distinct_map_eq:
  assumes "distinct (map f xs)" "x \<in> set xs" "y \<in> set xs" "f x = f y"
  shows "x = y"
  using assms by (meson distinct_map inj_onD)

lemma single_cases:
  assumes "length xs \<le> 1"
  obtains "xs = []" "single xs = None" | x where "xs = [x]" "single xs = Some x"
  using assms by (cases xs; cases "tl xs") auto

lemma single_SomeD: "single xs = Some x \<Longrightarrow> xs = [x]"
  by (cases xs; cases "tl xs") auto

lemma single_filter_SomeD:
  assumes "single (filter P xs) = Some x"
  shows "x \<in> set xs" "P x"
proof -
  have "x \<in> set (filter P xs)"
    using single_SomeD [OF assms] by simp
  then show "x \<in> set xs" "P x" by simp_all
qed

text \<open>With one row per key, a lookup that matches a row returns it.\<close>

lemma single_filter_member:
  assumes "length (filter P xs) \<le> 1" "x \<in> set xs" "P x"
  shows "single (filter P xs) = Some x"
  using assms(1)
proof (cases rule: single_cases)
  case 1
  with assms(2,3) show ?thesis by (simp add: filter_empty_conv)
next
  case (2 y)
  have "x \<in> set (filter P xs)" using assms(2,3) by simp
  then have "x = y" by (simp add: 2(1))
  with 2(2) show ?thesis by simp
qed

lemma checkout_pending_frame:
  "developers (checkout_pending d cx) = developers d"
  "items (checkout_pending d cx) = items d"
  "uuid_seq (checkout_pending d cx) = uuid_seq d"
  by (simp_all add: checkout_pending_def delete_purchase_def split: option.splits)

lemma checkout_pending_subset:
  "set (purchases (checkout_pending d cx)) \<subseteq> set (purchases d)"
  by (simp add: checkout_pending_def delete_purchase_def split: option.splits)

text \<open>What a request that passes the validation of lines 33 to 91 has established.\<close>

lemma checkout_validate_Inr:
  assumes "checkout_validate req u d = Inr cx"
  shows "cx_dev cx \<in> set (developers d)"
    and "github_login (cx_dev cx) = githubLogin_of u"
    and "claimed (cx_dev cx)"
    and "claimed_by (cx_dev cx) = Some (user_id u)"
    and "cx_item cx \<in> set (items d)"
    and "item_key (cx_item cx) = cx_item_id cx"
    and "is_active (cx_item cx)"
    and "cx_provider cx = ''stripe'' \<or> cx_provider cx = ''abacatepay''"
    and "\<exists>b. body req = Some b \<and> b_item_id b = Some (cx_item_id cx) \<and>
           b_provider b = Some (cx_provider cx)"
proof -
  let ?devs = "filter (\<lambda>x. github_login x = githubLogin_of u) (developers d)"
  from assms obtain dev where dev: "single ?devs = Some dev"
    by (auto simp: checkout_validate_def Let_def split: if_splits option.splits)
  from assms dev obtain b where b: "body req = Some b"
    by (auto simp: checkout_validate_def Let_def split: if_splits option.splits)
  from assms dev b obtain iid prov where ip: "b_item_id b = Some iid" "b_provider b = Some prov"
    by (auto simp: checkout_validate_def Let_def split: if_splits option.splits)
  let ?its = "filter (\<lambda>x. item_key x = iid \<and> is_active x) (items d)"
  from assms dev b ip obtain it where it: "single ?its = Some it"
    by (auto simp: checkout_validate_def Let_def split: if_splits option.splits)
  from assms dev b ip it have
    cx: "cx = \<lparr> cx_login = githubLogin_of u, cx_dev = dev, cx_item_id = iid,
                cx_provider = prov, cx_currency = b_currency b, cx_item = it \<rparr>"
    and cl: "claimed dev" "claimed_by dev = Some (user_id u)"
    and pr: "prov = ''stripe'' \<or> prov = ''abacatepay''"
    by (auto simp: checkout_validate_def Let_def split: if_splits)
  note d1 = single_filter_SomeD [OF dev] and i1 = single_filter_SomeD [OF it]
  show "cx_dev cx \<in> set (developers d)" using d1 by (simp add: cx)
  show "github_login (cx_dev cx) = githubLogin_of u" using d1 by (simp add: cx)
  show "claimed (cx_dev cx)" using cl by (simp add: cx)
  show "claimed_by (cx_dev cx) = Some (user_id u)" using cl by (simp add: cx)
  show "cx_item cx \<in> set (items d)" using i1 by (simp add: cx)
  show "item_key (cx_item cx) = cx_item_id cx" using i1 by (simp add: cx)
  show "is_active (cx_item cx)" using i1 by (simp add: cx)
  show "cx_provider cx = ''stripe'' \<or> cx_provider cx = ''abacatepay''" using pr by (simp add: cx)
  show "\<exists>b. body req = Some b \<and> b_item_id b = Some (cx_item_id cx) \<and>
           b_provider b = Some (cx_provider cx)"
    using b ip by (simp add: cx)
qed

lemma insert_pending_ok:
  assumes "status v = ''pending''" "provider_tx_id v = None"
    and "dv \<in> set (developers d)" "dev_id dv = developer_id v"
    and "it \<in> set (items d)" "item_key it = item_id v"
    and "ids_below d"
  shows "insert_purchase d v =
     Inr (v\<lparr>p_id := uuid_seq d\<rparr>,
          d\<lparr>purchases := purchases d @ [v\<lparr>p_id := uuid_seq d\<rparr>], uuid_seq := Suc (uuid_seq d)\<rparr>)"
proof -
  have "list_ex (\<lambda>x. dev_id x = developer_id v) (developers d)"
    unfolding list_ex_iff using assms(3,4) by blast
  moreover have "list_ex (\<lambda>x. item_key x = item_id v) (items d)"
    unfolding list_ex_iff using assms(5,6) by blast
  moreover have "\<not> list_ex (\<lambda>x. p_id x = uuid_seq d) (purchases d)"
    unfolding list_ex_iff using assms(7) by (auto simp: ids_below_def)
  ultimately have "purchases_check d (purchases d) (v\<lparr>p_id := uuid_seq d\<rparr>) = None"
    using assms(1,2) by (simp add: purchases_check_def)
  then show ?thesis
    by (simp add: insert_purchase_def Let_def)
qed

lemma update_new_row:
  assumes "purchases d = ps @ [q]" "p_id q \<notin> p_id ` set ps"
  shows "\<exists>q'. (case update_purchase d (p_id q) f of Inl e \<Rightarrow> d | Inr d2 \<Rightarrow> d2) =
            d\<lparr>purchases := ps @ [q']\<rparr> \<and> (q' = q \<or> q' = (f q)\<lparr>p_id := p_id q\<rparr>)"
proof (cases "update_purchase d (p_id q) f")
  case (Inl e)
  have "d = d\<lparr>purchases := ps @ [q]\<rparr>"
    using assms(1) by simp
  with Inl show ?thesis by auto
next
  case (Inr d2)
  have "map (\<lambda>x. if p_id x = p_id q then (f x)\<lparr>p_id := p_id q\<rparr> else x) ps = ps"
    using assms(2) by (induction ps) auto
  then have "d2 = d\<lparr>purchases := ps @ [(f q)\<lparr>p_id := p_id q\<rparr>]\<rparr>"
    using update_purchase_Inr(1) [OF Inr] by (simp add: assms(1))
  with Inr show ?thesis by auto
qed

text \<open>
  Lines 159 to 221 always leave one new pending row, whatever the provider answers.
\<close>

lemma checkout_create_result:
  assumes "cx_dev cx \<in> set (developers d)" "cx_item cx \<in> set (items d)"
    "item_key (cx_item cx) = cx_item_id cx" "ids_below d"
  shows "\<exists>resp q. checkout_create req d cx =
             (resp, d\<lparr>purchases := purchases d @ [q], uuid_seq := Suc (uuid_seq d)\<rparr>) \<and>
           p_id q = uuid_seq d \<and> developer_id q = dev_id (cx_dev cx) \<and>
           item_id q = cx_item_id cx \<and> status q = ''pending''"
proof (cases "cx_provider cx = ''stripe''")
  case True
  define v where "v = \<lparr> p_id = 0, developer_id = dev_id (cx_dev cx), item_id = cx_item_id cx,
      provider = ''stripe'', provider_tx_id = None,
      amount_cents = (if cx_currency cx = Some ''brl'' then price_brl_cents (cx_item cx)
                      else price_usd_cents (cx_item cx)),
      currency = (if cx_currency cx = Some ''brl'' then ''brl'' else ''usd''),
      status = ''pending'', gifted_to = None \<rparr>"
  define q where "q = v\<lparr>p_id := uuid_seq d\<rparr>"
  define d1 where "d1 = d\<lparr>purchases := purchases d @ [q], uuid_seq := Suc (uuid_seq d)\<rparr>"
  have ins: "insert_purchase d v = Inr (q, d1)"
    unfolding q_def d1_def
    by (rule insert_pending_ok [OF _ _ assms(1) _ assms(2) _ assms(4)])
      (simp_all add: v_def assms(3))
  have q: "p_id q = uuid_seq d" "developer_id q = dev_id (cx_dev cx)"
    "item_id q = cx_item_id cx" "status q = ''pending''"
    by (simp_all add: q_def v_def)
  have "checkout_create req d cx =
      (case createCheckoutSession req of
         None \<Rightarrow> ((500, Error ''Failed to create checkout session''), d1)
       | Some url \<Rightarrow> ((200, CheckoutSession url (p_id q)), d1))"
    using True ins by (simp add: checkout_create_def Let_def v_def [symmetric])
  then have "\<exists>resp. checkout_create req d cx = (resp, d1)"
    by (cases "createCheckoutSession req") simp_all
  with q show ?thesis unfolding d1_def by blast
next
  case False
  define v where "v = \<lparr> p_id = 0, developer_id = dev_id (cx_dev cx), item_id = cx_item_id cx,
      provider = ''abacatepay'', provider_tx_id = None,
      amount_cents = price_brl_cents (cx_item cx), currency = ''brl'',
      status = ''pending'', gifted_to = None \<rparr>"
  define q where "q = v\<lparr>p_id := uuid_seq d\<rparr>"
  define d1 where "d1 = d\<lparr>purchases := purchases d @ [q], uuid_seq := Suc (uuid_seq d)\<rparr>"
  have ins: "insert_purchase d v = Inr (q, d1)"
    unfolding q_def d1_def
    by (rule insert_pending_ok [OF _ _ assms(1) _ assms(2) _ assms(4)])
      (simp_all add: v_def assms(3))
  have q: "p_id q = uuid_seq d" "developer_id q = dev_id (cx_dev cx)"
    "item_id q = cx_item_id cx" "status q = ''pending''"
    by (simp_all add: q_def v_def)
  have fresh: "p_id q \<notin> p_id ` set (purchases d)"
    using assms(4) by (auto simp: ids_below_def q(1))
  have cr: "checkout_create req d cx =
      (case createPixQrCode req of
         None \<Rightarrow> ((500, Error ''Failed to create checkout session''), d1)
       | Some (brCode, brCodeBase64, pixId) \<Rightarrow>
           ((200, PixQrCode brCode brCodeBase64 (p_id q)),
            (case update_purchase d1 (p_id q) (\<lambda>x. x\<lparr>provider_tx_id := Some pixId\<rparr>) of
               Inl e \<Rightarrow> d1 | Inr d2 \<Rightarrow> d2)))"
    using False ins
    by (simp add: checkout_create_def Let_def v_def [symmetric] split: option.split prod.split)
  show ?thesis
  proof (cases "createPixQrCode req")
    case None
    with cr have "checkout_create req d cx =
        ((500, Error ''Failed to create checkout session''),
         d\<lparr>purchases := purchases d @ [q], uuid_seq := Suc (uuid_seq d)\<rparr>)"
      by (simp add: d1_def)
    with q show ?thesis by blast
  next
    case (Some t)
    obtain brCode brCodeBase64 pixId where t: "t = (brCode, brCodeBase64, pixId)"
      by (cases t)
    have "purchases d1 = purchases d @ [q]" by (simp add: d1_def)
    from update_new_row [OF this fresh, of "\<lambda>x. x\<lparr>provider_tx_id := Some pixId\<rparr>"]
    obtain q' where q': "(case update_purchase d1 (p_id q) (\<lambda>x. x\<lparr>provider_tx_id := Some pixId\<rparr>) of
               Inl e \<Rightarrow> d1 | Inr d2 \<Rightarrow> d2) = d1\<lparr>purchases := purchases d @ [q']\<rparr>"
      "q' = q \<or> q' = (q\<lparr>provider_tx_id := Some pixId\<rparr>)\<lparr>p_id := p_id q\<rparr>"
      by blast
    have "checkout_create req d cx =
        ((200, PixQrCode brCode brCodeBase64 (p_id q)),
         d\<lparr>purchases := purchases d @ [q'], uuid_seq := Suc (uuid_seq d)\<rparr>)"
      using cr Some t q'(1) by (simp add: d1_def)
    moreover have "p_id q' = uuid_seq d"
      "developer_id q' = dev_id (cx_dev cx)" "item_id q' = cx_item_id cx" "status q' = ''pending''"
      using q q'(2) by auto
    ultimately show ?thesis by blast
  qed
qed

section \<open>Claims on purchases and raids\<close>

lemma shop_db_simps [simp]:
  "developers (shop_db ps n) = [alice_dev, bob_dev]"
  "items (shop_db ps n) = [flag_item, billboard_item]"
  "purchases (shop_db ps n) = ps"
  "raids (shop_db ps n) = []"
  "uuid_seq (shop_db ps n) = n"
  "(shop_db ps n)\<lparr>purchases := ps', uuid_seq := n'\<rparr> = shop_db ps' n'"
  "(shop_db ps n)\<lparr>purchases := ps'\<rparr> = shop_db ps' n"
  "(shop_db ps n)\<lparr>uuid_seq := n'\<rparr> = shop_db ps n'"
  by (simp_all add: shop_db_def)

lemma shop_db_initial: "db_reachable (shop_db [] 0)"
  by (rule db_reachable.initial) (simp_all add: alice_dev_def bob_dev_def)

lemma grant_flag:
  "insert_purchase (shop_db [] 0) (granted 7 ''flag'') =
     Inr (granted 0 ''flag'', shop_db [granted 0 ''flag''] 1)"
  by (simp add: insert_purchase_def Let_def purchases_check_def granted_def alice_dev_def bob_dev_def
      flag_item_def billboard_item_def)

lemma shop_db_flag: "db_reachable (shop_db [granted 0 ''flag''] 1)"
  using shop_db_initial grant_flag by (rule db_reachable.p_insert)

text \<open>
  In every reachable state of the database, for every developer and every item, at most
  one purchase row of the pair has the status \<open>completed\<close>: the index of migration 003
  covers every item, \<open>billboard\<close> too.
\<close>

lemma one_completed_purchase:
  assumes "db_reachable d"
  shows "length (filter (\<lambda>x. developer_id x = dv \<and> item_id x = it \<and> status x = ''completed'')
           (purchases d)) \<le> 1"
proof -
  from db_reachable_inv [OF assms]
  have "length (filter (completed_for dv it) (purchases d)) \<le> 1"
    by (rule completed_at_most_one)
  then show ?thesis
    by (simp add: completed_for_def [abs_def])
qed



text \<open>
  Claim C5. In every reachable state of the database, the attacker of a raid row is not
  its defender.
\<close>

theorem raid_not_on_oneself:
  assumes "db_reachable d" "r \<in> set (raids d)"
  shows "attacker_id r \<noteq> defender_id r"
  using db_reachable_inv [OF assms(1)] assms(2) by (simp add: db_inv_def raids_no_self_def)

lemma raid_inserted:
  "insert_raid (shop_db [] 0) raid_on_bob =
     Inr (raid_on_bob, (shop_db [] 0)\<lparr>raids := [raid_on_bob], uuid_seq := 1\<rparr>)"
  by (simp add: insert_raid_def Let_def raids_check_def raid_on_bob_def shop_db_def alice_dev_def
      bob_dev_def)

theorem raid_not_on_oneself_witness:
  "db_reachable ((shop_db [] 0)\<lparr>raids := [raid_on_bob], uuid_seq := 1\<rparr>) \<and>
   raid_on_bob \<in> set (raids ((shop_db [] 0)\<lparr>raids := [raid_on_bob], uuid_seq := 1\<rparr>)) \<and>
   attacker_id raid_on_bob \<noteq> defender_id raid_on_bob"
proof -
  have re: "db_reachable ((shop_db [] 0)\<lparr>raids := [raid_on_bob], uuid_seq := 1\<rparr>)"
    using shop_db_initial raid_inserted by (rule db_reachable.r_insert)
  have mem: "raid_on_bob \<in> set (raids ((shop_db [] 0)\<lparr>raids := [raid_on_bob], uuid_seq := 1\<rparr>))"
    by simp
  from raid_not_on_oneself [OF re mem] re mem show ?thesis by blast
qed

text \<open>The database refuses a raid of a developer on their own building.\<close>

lemma raid_on_oneself_refused:
  "insert_raid (shop_db [] 0) (raid_on_bob\<lparr>defender_id := 1\<rparr>) =
     Inl (check_violation ''raids_no_self'')"
  by (simp add: insert_raid_def Let_def raids_check_def raid_on_bob_def)

section \<open>Claims on the checkout\<close>

lemma checkout_POST_owned:
  assumes "user req = Some u" "\<not> rate_limited lc (user_id u) (now req)"
    "checkout_validate req u d = Inr cx" "checkout_owned d cx = Some resp"
  shows "checkout_POST req lc d = (resp, lc(user_id u \<mapsto> now req), d)"
  using assms by (simp add: checkout_POST_def)

lemma checkout_POST_create:
  assumes "user req = Some u" "\<not> rate_limited lc (user_id u) (now req)"
    "checkout_validate req u d = Inr cx" "checkout_owned d cx = None"
    "checkout_create req (checkout_pending d cx) cx = (resp, d')"
  shows "checkout_POST req lc d = (resp, lc(user_id u \<mapsto> now req), d')"
  using assms by (simp add: checkout_POST_def)

lemma order_validates:
  assumes "i \<in> {flag_item, billboard_item}" "item_key i = it" "prov \<in> {''stripe'', ''abacatepay''}"
  shows "checkout_validate (order it prov) alice (shop_db ps n) = Inr (order_ctx it prov i)"
  using assms
  by (auto simp: checkout_validate_def Let_def order_def order_ctx_def alice_def githubLogin_of_def
      toLowerCase_def lower_char_def alice_dev_def bob_dev_def flag_item_def billboard_item_def)

lemma order_facts:
  "user (order it prov) = Some alice"
  "\<not> rate_limited no_checkout (user_id alice) (now (order it prov))"
  "now (order it prov) = 20000" "user_id alice = ''u-alice''"
  by (simp_all add: order_def rate_limited_def no_checkout_def alice_def)

subsection \<open>The billboard slots\<close>

lemma maxSlots_formula:
  "maxSlots repos contribs =
     max 1 \<lfloor>2 * real_of_int (round (14 + min 1 (real repos / 100) * 16 + 5) + round (22 :: real)) *
               max 30 (12 + sqrt (real contribs) * 3) / 480\<rfloor>"
  by (simp add: maxSlots_def Let_def)

text \<open>
  On a table with at least \<open>maxSlots\<close> completed billboards of the developer, lines 94
  to 129 answer a request that has come that far with status 409 and write nothing.
\<close>

lemma slots_full_conflict:
  assumes "distinct (map dev_id (developers d))"
    and "user req = Some u" "\<not> rate_limited lc (user_id u) (now req)"
    and "checkout_validate req u d = Inr cx" "cx_item_id cx = ''billboard''"
    and "maxSlots (public_repos (cx_dev cx)) (contributions (cx_dev cx)) \<le>
         int (length (filter (\<lambda>x. developer_id x = dev_id (cx_dev cx) \<and> item_id x = ''billboard'' \<and>
                status x = ''completed'') (purchases d)))"
  shows "checkout_POST req lc d =
     ((409, MaxSlotsReached (maxSlots (public_repos (cx_dev cx)) (contributions (cx_dev cx)))),
      lc(user_id u \<mapsto> now req), d)"
proof -
  let ?byid = "filter (\<lambda>x. dev_id x = dev_id (cx_dev cx)) (developers d)"
  have "length ?byid \<le> 1"
    using assms(1) by (rule at_most_one) simp
  then have devFull: "single ?byid = Some (cx_dev cx)"
    using checkout_validate_Inr(1) [OF assms(4)] by (rule single_filter_member) simp
  have "checkout_owned d cx =
      Some (409, MaxSlotsReached (maxSlots (public_repos (cx_dev cx)) (contributions (cx_dev cx))))"
    using assms(5,6) devFull by (simp add: checkout_owned_def Let_def)
  with assms(2,3,4) show ?thesis
    by (rule checkout_POST_owned)
qed

text \<open>
  A building has five slots or more: its faces measure at least \<open>2 * (19 + 22) * 30\<close>, and
  a slot takes 480.
\<close>

lemma maxSlots_at_least_5: "5 \<le> maxSlots repos contribs"
proof -
  define w where "w = round (14 + min 1 (real repos / 100) * 16 + 5)"
  define h where "h = max 30 (12 + sqrt (real contribs) * 3)"
  have "round (19 :: real) \<le> w"
    unfolding w_def by (rule round_mono) simp
  then have w: "41 \<le> real_of_int (w + 22)"
    by simp
  have h: "30 \<le> h"
    by (simp add: h_def)
  have "41 * 30 \<le> real_of_int (w + 22) * h"
  proof (rule mult_mono)
    show "0 \<le> real_of_int (w + 22)" using w by linarith
  qed (use w h in simp_all)
  then have "5 * 480 \<le> 2 * (real_of_int (w + 22) * h)"
    by linarith
  then have "5 \<le> 2 * real_of_int (w + 22) * h / 480"
    by (simp only: le_divide_eq_numeral1 mult.assoc)
  then have "5 \<le> \<lfloor>2 * real_of_int (w + 22) * h / 480\<rfloor>"
    by (simp add: le_floor_iff)
  moreover have "maxSlots repos contribs = max 1 \<lfloor>2 * real_of_int (w + 22) * h / 480\<rfloor>"
    by (simp add: maxSlots_def Let_def w_def h_def)
  ultimately show ?thesis
    by simp
qed

text \<open>
  With the index of migration 003, the count of a developer's completed billboards stays
  below the slots of every building: in the states of the database, the test of line 123
  is never true.
\<close>

lemma slots_never_full:
  assumes "db_reachable d"
  shows "int (length (filter (\<lambda>x. developer_id x = dv \<and> item_id x = ''billboard'' \<and>
            status x = ''completed'') (purchases d))) < maxSlots repos contribs"
  using one_completed_purchase [OF assms, of dv "''billboard''"] maxSlots_at_least_5 [of repos contribs]
  by linarith

text \<open>
  Claim C3, as amended. In a reachable state of the database, a checkout request for an
  item other than \<open>billboard\<close> of an authenticated user who is not rate-limited and passes
  the validation, whose developer has a completed purchase of the item, is answered with
  status 409 and "Already owned", and the database is unchanged.
\<close>

theorem already_owned:
  assumes "db_reachable d"
    and "user req = Some u" "\<not> rate_limited lc (user_id u) (now req)"
    and "checkout_validate req u d = Inr cx" "cx_item_id cx \<noteq> ''billboard''"
    and "p \<in> set (purchases d)" "developer_id p = dev_id (cx_dev cx)"
      "item_id p = cx_item_id cx" "status p = ''completed''"
  shows "checkout_POST req lc d = ((409, Error ''Already owned''), lc(user_id u \<mapsto> now req), d)"
proof -
  let ?P = "completed_for (dev_id (cx_dev cx)) (cx_item_id cx)"
  from db_reachable_inv [OF assms(1)] have "length (filter ?P (purchases d)) \<le> 1"
    by (rule completed_at_most_one)
  then have "single (filter ?P (purchases d)) = Some p"
    using assms(6) by (rule single_filter_member) (simp add: completed_for_def assms(7-9))
  then have "checkout_owned d cx = Some (409, Error ''Already owned'')"
    using assms(5) by (simp add: checkout_owned_def maybeSingle_def completed_for_def [abs_def])
  with assms(2,3,4) show ?thesis
    by (rule checkout_POST_owned)
qed

theorem already_owned_witness:
  "checkout_POST (order ''flag'' ''stripe'') no_checkout (shop_db [granted 0 ''flag''] 1) =
     ((409, Error ''Already owned''), no_checkout(''u-alice'' \<mapsto> 20000),
      shop_db [granted 0 ''flag''] 1)"
proof -
  let ?d = "shop_db [granted 0 ''flag''] 1"
  let ?cx = "order_ctx ''flag'' ''stripe'' flag_item"
  have 3: "user (order ''flag'' ''stripe'') = Some alice"
    by (simp add: order_def)
  have 4: "\<not> rate_limited no_checkout (user_id alice) (now (order ''flag'' ''stripe''))"
    by (simp add: rate_limited_def no_checkout_def)
  have 5: "checkout_validate (order ''flag'' ''stripe'') alice ?d = Inr ?cx"
    by (rule order_validates) (simp_all add: flag_item_def)
  have 6: "cx_item_id ?cx \<noteq> ''billboard''"
    by (simp add: order_ctx_def)
  have 7: "granted 0 ''flag'' \<in> set (purchases ?d)"
    by simp
  have 8: "developer_id (granted 0 ''flag'') = dev_id (cx_dev ?cx)"
    "item_id (granted 0 ''flag'') = cx_item_id ?cx" "status (granted 0 ''flag'') = ''completed''"
    by (simp_all add: granted_def order_ctx_def alice_dev_def)
  from already_owned [OF shop_db_flag 3 4 5 6 7 8] show ?thesis
    by (simp add: alice_def order_def)
qed

text \<open>
  Claim C3 as stated fails for a request within ten seconds of the user's last one: it is
  answered with status 429, not 409.
\<close>

theorem already_owned_rate_limited_counterexample:
  "user (order ''flag'' ''stripe'') = Some alice \<and>
   claimed alice_dev \<and> claimed_by alice_dev = Some (user_id alice) \<and>
   completed_for (dev_id alice_dev) ''flag'' (granted 0 ''flag'') \<and>
   fst (checkout_POST (order ''flag'' ''stripe'') recent_checkout
          (shop_db [granted 0 ''flag''] 1)) =
     (429, Error ''Too fast. Wait a few seconds.'')"
  by (simp add: checkout_POST_def order_def rate_limited_def recent_checkout_def alice_def
      alice_dev_def granted_def completed_for_def)

subsection \<open>The second billboard\<close>




subsection \<open>The stale pending purchase\<close>

text \<open>
  Claim C6, as amended. In a reachable state of the database, a checkout request that is
  not rate-limited, passes the validation and is not refused by the ownership check
  (lines 93 to 143), for a pair (developer, item) with exactly one pending purchase \<open>p\<close>,
  deletes \<open>p\<close> and inserts one new pending purchase of the pair under a new id; nothing
  else changes, whatever the payment provider answers: there is no retry and no rollback.
\<close>

theorem stale_pending_replaced:
  assumes "db_reachable d"
    and "user req = Some u" "\<not> rate_limited lc (user_id u) (now req)"
    and "checkout_validate req u d = Inr cx" "checkout_owned d cx = None"
    and "filter (\<lambda>x. developer_id x = dev_id (cx_dev cx) \<and> item_id x = cx_item_id cx \<and>
           status x = ''pending'') (purchases d) = [p]"
  shows "\<exists>resp q. checkout_POST req lc d =
            (resp, lc(user_id u \<mapsto> now req),
             d\<lparr>purchases := filter (\<lambda>x. p_id x \<noteq> p_id p) (purchases d) @ [q],
               uuid_seq := Suc (uuid_seq d)\<rparr>) \<and>
          developer_id q = dev_id (cx_dev cx) \<and> item_id q = cx_item_id cx \<and>
          status q = ''pending'' \<and> p_id q = uuid_seq d \<and> p_id q \<notin> p_id ` set (purchases d)"
proof -
  have inv: "ids_below d"
    using db_reachable_inv [OF assms(1)] by (simp add: db_inv_def)
  have pend: "checkout_pending d cx = delete_purchase d (p_id p)"
    by (simp add: checkout_pending_def maybeSingle_def assms(6))
  define d1 where "d1 = delete_purchase d (p_id p)"
  have d1: "purchases d1 = filter (\<lambda>x. p_id x \<noteq> p_id p) (purchases d)"
    "developers d1 = developers d" "items d1 = items d" "uuid_seq d1 = uuid_seq d"
    by (simp_all add: d1_def delete_purchase_def)
  note v = checkout_validate_Inr [OF assms(4)]
  have "ids_below d1"
    using inv by (simp add: ids_below_def d1)
  with v(1,5,6) obtain resp q where
    cr: "checkout_create req d1 cx =
          (resp, d1\<lparr>purchases := purchases d1 @ [q], uuid_seq := Suc (uuid_seq d1)\<rparr>)"
    and q: "p_id q = uuid_seq d1" "developer_id q = dev_id (cx_dev cx)"
      "item_id q = cx_item_id cx" "status q = ''pending''"
    using checkout_create_result [of cx d1 req] by (auto simp: d1)
  have "d1\<lparr>purchases := purchases d1 @ [q], uuid_seq := Suc (uuid_seq d1)\<rparr> =
        d\<lparr>purchases := filter (\<lambda>x. p_id x \<noteq> p_id p) (purchases d) @ [q],
          uuid_seq := Suc (uuid_seq d)\<rparr>"
    by (simp add: d1_def delete_purchase_def)
  with cr have "checkout_POST req lc d =
      (resp, lc(user_id u \<mapsto> now req),
       d\<lparr>purchases := filter (\<lambda>x. p_id x \<noteq> p_id p) (purchases d) @ [q],
         uuid_seq := Suc (uuid_seq d)\<rparr>)"
    using assms(2,3,4,5) pend by (simp add: checkout_POST_def d1_def)
  moreover have "p_id q = uuid_seq d"
    using q(1) by (simp add: d1(4))
  moreover have "p_id q \<notin> p_id ` set (purchases d)"
    using inv by (auto simp: ids_below_def q(1) d1(4))
  ultimately show ?thesis
    using q(2,3,4) by blast
qed

lemma first_checkout:
  "checkout_POST (order ''flag'' ''stripe'') no_checkout (shop_db [] 0) =
     ((200, CheckoutSession ''https://checkout.stripe.com/c/pay/cs_1'' 0),
      no_checkout(''u-alice'' \<mapsto> 20000), shop_db [pending_flag] 1)"
proof -
  let ?cx = "order_ctx ''flag'' ''stripe'' flag_item"
  have v: "checkout_validate (order ''flag'' ''stripe'') alice (shop_db [] 0) = Inr ?cx"
    by (rule order_validates) (simp_all add: flag_item_def)
  have o: "checkout_owned (shop_db [] 0) ?cx = None"
    by (simp add: checkout_owned_def order_ctx_def maybeSingle_def)
  have p: "checkout_pending (shop_db [] 0) ?cx = shop_db [] 0"
    by (simp add: checkout_pending_def maybeSingle_def)
  have c: "checkout_create (order ''flag'' ''stripe'') (checkout_pending (shop_db [] 0) ?cx) ?cx =
      ((200, CheckoutSession ''https://checkout.stripe.com/c/pay/cs_1'' 0), shop_db [pending_flag] 1)"
    unfolding p
    by (simp add: checkout_create_def order_ctx_def insert_purchase_def purchases_check_def Let_def
        alice_dev_def bob_dev_def flag_item_def billboard_item_def pending_flag_def order_def)
  from checkout_POST_create [OF order_facts(1,2) v o c] show ?thesis
    by (simp add: order_facts)
qed

lemma insert_pending_flag:
  "insert_purchase (shop_db [] 0) pending_flag = Inr (pending_flag, shop_db [pending_flag] 1)"
  by (simp add: insert_purchase_def purchases_check_def Let_def alice_dev_def bob_dev_def
      flag_item_def billboard_item_def pending_flag_def)

lemma shop_db_pending: "db_reachable (shop_db [pending_flag] 1)"
  using shop_db_initial insert_pending_flag by (rule db_reachable.p_insert)

theorem stale_pending_replaced_witness:
  "db_reachable (shop_db [pending_flag] 1) \<and>
   (\<exists>resp q. checkout_POST (order ''flag'' ''abacatepay'') no_checkout (shop_db [pending_flag] 1) =
        (resp, no_checkout(''u-alice'' \<mapsto> 20000), shop_db [q] 2) \<and>
      developer_id q = 1 \<and> item_id q = ''flag'' \<and> status q = ''pending'' \<and> p_id q = 1)"
proof -
  let ?d = "shop_db [pending_flag] 1"
  let ?req = "order ''flag'' ''abacatepay''"
  let ?cx = "order_ctx ''flag'' ''abacatepay'' flag_item"
  note 2 = order_facts(1) [of "''flag''" "''abacatepay''"]
  note 3 = order_facts(2) [of "''flag''" "''abacatepay''"]
  have 4: "checkout_validate ?req alice ?d = Inr ?cx"
    by (rule order_validates) (simp_all add: flag_item_def)
  have 5: "checkout_owned ?d ?cx = None"
    by (simp add: checkout_owned_def order_ctx_def maybeSingle_def pending_flag_def alice_dev_def)
  have 6: "filter (\<lambda>x. developer_id x = dev_id (cx_dev ?cx) \<and> item_id x = cx_item_id ?cx \<and>
           status x = ''pending'') (purchases ?d) = [pending_flag]"
    by (simp add: pending_flag_def order_ctx_def alice_dev_def)
  from stale_pending_replaced [OF shop_db_pending 2 3 4 5 6]
  obtain resp q where
    "checkout_POST ?req no_checkout ?d =
       (resp, no_checkout(user_id alice \<mapsto> now ?req),
        ?d\<lparr>purchases := filter (\<lambda>x. p_id x \<noteq> p_id pending_flag) (purchases ?d) @ [q],
           uuid_seq := Suc (uuid_seq ?d)\<rparr>)"
    "developer_id q = dev_id (cx_dev ?cx)" "item_id q = cx_item_id ?cx"
    "status q = ''pending''" "p_id q = uuid_seq ?d"
    by blast
  then have "checkout_POST ?req no_checkout ?d =
        (resp, no_checkout(''u-alice'' \<mapsto> 20000), shop_db [q] 2) \<and>
      developer_id q = 1 \<and> item_id q = ''flag'' \<and> status q = ''pending'' \<and> p_id q = 1"
    by (simp add: alice_def order_def order_ctx_def alice_dev_def numeral_2_eq_2)
  with shop_db_pending show ?thesis by blast
qed

text \<open>The same request, evaluated: the stale row 0 is gone, the new row 1 is there.\<close>

lemma second_checkout:
  "checkout_POST (order ''flag'' ''abacatepay'') no_checkout (shop_db [pending_flag] 1) =
     ((200, PixQrCode ''00020126'' ''iVBORw0KGgo='' 1),
      no_checkout(''u-alice'' \<mapsto> 20000), shop_db [pix_flag] 2)"
proof -
  let ?cx = "order_ctx ''flag'' ''abacatepay'' flag_item"
  let ?d = "shop_db [pending_flag] 1"
  have v: "checkout_validate (order ''flag'' ''abacatepay'') alice ?d = Inr ?cx"
    by (rule order_validates) (simp_all add: flag_item_def)
  have o: "checkout_owned ?d ?cx = None"
    by (simp add: checkout_owned_def order_ctx_def maybeSingle_def pending_flag_def alice_dev_def)
  have p: "checkout_pending ?d ?cx = shop_db [] 1"
    by (simp add: checkout_pending_def maybeSingle_def order_ctx_def pending_flag_def alice_dev_def
        delete_purchase_def)
  have c: "checkout_create (order ''flag'' ''abacatepay'') (checkout_pending ?d ?cx) ?cx =
      ((200, PixQrCode ''00020126'' ''iVBORw0KGgo='' 1), shop_db [pix_flag] 2)"
    unfolding p
    by (simp add: checkout_create_def order_ctx_def insert_purchase_def update_purchase_def
        purchases_check_def Let_def alice_dev_def bob_dev_def flag_item_def billboard_item_def
        pix_flag_def order_def numeral_2_eq_2)
  from checkout_POST_create [OF order_facts(1,2) v o c] show ?thesis
    by (simp add: order_facts)
qed

text \<open>
  Two states in which a pending purchase of the pair stays. In the first, Alice was
  granted the flag after her checkout: the request is refused as "Already owned" before
  the pending row is looked at. In the second, the pair has two pending rows: the lookup
  \<open>maybeSingle\<close> finds no single row, nothing is deleted, and a third row is added.
\<close>

lemma shop_db_pending_owned: "db_reachable (shop_db [pending_flag, granted 1 ''flag''] 2)"
proof -
  have "insert_purchase (shop_db [pending_flag] 1) (granted 7 ''flag'') =
      Inr (granted 1 ''flag'', shop_db [pending_flag, granted 1 ''flag''] 2)"
    by (simp add: insert_purchase_def purchases_check_def Let_def alice_dev_def bob_dev_def
        flag_item_def billboard_item_def pending_flag_def granted_def numeral_2_eq_2)
  with shop_db_pending show ?thesis
    by (rule db_reachable.p_insert)
qed

lemma shop_db_two_pending:
  "db_reachable (shop_db [pending_flag, pending_flag\<lparr>p_id := 1\<rparr>] 2)"
proof -
  have "insert_purchase (shop_db [pending_flag] 1) pending_flag =
      Inr (pending_flag\<lparr>p_id := 1\<rparr>, shop_db [pending_flag, pending_flag\<lparr>p_id := 1\<rparr>] 2)"
    by (simp add: insert_purchase_def purchases_check_def Let_def alice_dev_def bob_dev_def
        flag_item_def billboard_item_def pending_flag_def numeral_2_eq_2)
  with shop_db_pending show ?thesis
    by (rule db_reachable.p_insert)
qed

lemma owned_checkout:
  "checkout_POST (order ''flag'' ''stripe'') no_checkout (shop_db [pending_flag, granted 1 ''flag''] 2) =
     ((409, Error ''Already owned''), no_checkout(''u-alice'' \<mapsto> 20000),
      shop_db [pending_flag, granted 1 ''flag''] 2)"
proof -
  let ?cx = "order_ctx ''flag'' ''stripe'' flag_item"
  let ?d = "shop_db [pending_flag, granted 1 ''flag''] 2"
  have v: "checkout_validate (order ''flag'' ''stripe'') alice ?d = Inr ?cx"
    by (rule order_validates) (simp_all add: flag_item_def)
  have o: "checkout_owned ?d ?cx = Some (409, Error ''Already owned'')"
    by (simp add: checkout_owned_def order_ctx_def maybeSingle_def pending_flag_def granted_def
        alice_dev_def)
  from checkout_POST_owned [OF order_facts(1,2) v o] show ?thesis
    by (simp add: order_facts)
qed

lemma third_checkout:
  "checkout_POST (order ''flag'' ''stripe'') no_checkout
       (shop_db [pending_flag, pending_flag\<lparr>p_id := 1\<rparr>] 2) =
     ((200, CheckoutSession ''https://checkout.stripe.com/c/pay/cs_1'' 2),
      no_checkout(''u-alice'' \<mapsto> 20000),
      shop_db [pending_flag, pending_flag\<lparr>p_id := 1\<rparr>, pending_flag\<lparr>p_id := 2\<rparr>] 3)"
proof -
  let ?cx = "order_ctx ''flag'' ''stripe'' flag_item"
  let ?d = "shop_db [pending_flag, pending_flag\<lparr>p_id := 1\<rparr>] 2"
  have v: "checkout_validate (order ''flag'' ''stripe'') alice ?d = Inr ?cx"
    by (rule order_validates) (simp_all add: flag_item_def)
  have o: "checkout_owned ?d ?cx = None"
    by (simp add: checkout_owned_def order_ctx_def maybeSingle_def pending_flag_def alice_dev_def)
  have p: "checkout_pending ?d ?cx = ?d"
    by (simp add: checkout_pending_def maybeSingle_def order_ctx_def pending_flag_def alice_dev_def)
  have c: "checkout_create (order ''flag'' ''stripe'') (checkout_pending ?d ?cx) ?cx =
      ((200, CheckoutSession ''https://checkout.stripe.com/c/pay/cs_1'' 2),
       shop_db [pending_flag, pending_flag\<lparr>p_id := 1\<rparr>, pending_flag\<lparr>p_id := 2\<rparr>] 3)"
    unfolding p
    by (simp add: checkout_create_def order_ctx_def insert_purchase_def purchases_check_def Let_def
        alice_dev_def bob_dev_def flag_item_def billboard_item_def pending_flag_def order_def
        numeral_2_eq_2 numeral_3_eq_3)
  from checkout_POST_create [OF order_facts(1,2) v o c] show ?thesis
    by (simp add: order_facts)
qed

text \<open>
  Claim C6 as stated fails in both states: the request passes the validation, a pending
  purchase of the pair exists, and no pending purchase is deleted.
\<close>

theorem stale_pending_kept_counterexample:
  "db_reachable (shop_db [pending_flag, granted 1 ''flag''] 2) \<and>
   checkout_validate (order ''flag'' ''stripe'') alice (shop_db [pending_flag, granted 1 ''flag''] 2) =
     Inr (order_ctx ''flag'' ''stripe'' flag_item) \<and>
   pending_for 1 ''flag'' pending_flag \<and>
   checkout_POST (order ''flag'' ''stripe'') no_checkout (shop_db [pending_flag, granted 1 ''flag''] 2) =
     ((409, Error ''Already owned''), no_checkout(''u-alice'' \<mapsto> 20000),
      shop_db [pending_flag, granted 1 ''flag''] 2) \<and>
   db_reachable (shop_db [pending_flag, pending_flag\<lparr>p_id := 1\<rparr>] 2) \<and>
   checkout_validate (order ''flag'' ''stripe'') alice
       (shop_db [pending_flag, pending_flag\<lparr>p_id := 1\<rparr>] 2) =
     Inr (order_ctx ''flag'' ''stripe'' flag_item) \<and>
   checkout_POST (order ''flag'' ''stripe'') no_checkout
       (shop_db [pending_flag, pending_flag\<lparr>p_id := 1\<rparr>] 2) =
     ((200, CheckoutSession ''https://checkout.stripe.com/c/pay/cs_1'' 2),
      no_checkout(''u-alice'' \<mapsto> 20000),
      shop_db [pending_flag, pending_flag\<lparr>p_id := 1\<rparr>, pending_flag\<lparr>p_id := 2\<rparr>] 3)"
proof -
  have v: "checkout_validate (order ''flag'' ''stripe'') alice (shop_db ps n) =
      Inr (order_ctx ''flag'' ''stripe'' flag_item)" for ps n
    by (rule order_validates) (simp_all add: flag_item_def)
  have "pending_for 1 ''flag'' pending_flag"
    by (simp add: pending_for_def pending_flag_def)
  with shop_db_pending_owned shop_db_two_pending owned_checkout third_checkout v
  show ?thesis by simp
qed

section \<open>Claims on the loadouts\<close>

text \<open>
  Claim C7. A POST to the building loadout or to the raid loadout without an
  authenticated user is answered with status 401, and the database, with the stored
  loadouts, is unchanged.
\<close>

theorem loadout_needs_session:
  assumes "l_user req = None" "rl_user req' = None"
  shows "loadout_POST req d = ((401, LoadoutError ''Not authenticated''), d) \<and>
         raid_loadout_POST vehicles tags req' d = ((401, LoadoutError ''Not authenticated''), d)"
  using assms by (simp add: loadout_POST_def raid_loadout_POST_def)

theorem loadout_needs_session_witness:
  "l_user anonymous_loadout = None \<and> rl_user anonymous_raid_loadout = None \<and>
   loadout_POST anonymous_loadout (shop_db [granted 0 ''flag''] 1) =
     ((401, LoadoutError ''Not authenticated''), shop_db [granted 0 ''flag''] 1) \<and>
   raid_loadout_POST [''raid_rocket''] [''tag_neon''] anonymous_raid_loadout
       (shop_db [granted 0 ''flag''] 1) =
     ((401, LoadoutError ''Not authenticated''), shop_db [granted 0 ''flag''] 1)"
proof -
  have 1: "l_user anonymous_loadout = None"
    by (simp add: anonymous_loadout_def)
  have 2: "rl_user anonymous_raid_loadout = None"
    by (simp add: anonymous_raid_loadout_def)
  from loadout_needs_session [OF 1 2] 1 2 show ?thesis
    by blast
qed

text \<open>With a session, the same body is stored: the rejection is that of the missing user.\<close>

lemma loadout_with_session:
  "loadout_POST (anonymous_loadout\<lparr>l_user := Some alice\<rparr>)
       ((shop_db [granted 0 ''flag''] 1)\<lparr>items := [flag_item, loadout_item]\<rparr>) =
     ((200, LoadoutSaved (Some ''flag'') None None),
      (shop_db [granted 0 ''flag''] 1)
        \<lparr>items := [flag_item, loadout_item],
         developer_customizations :=
           [\<lparr> c_developer_id = 1, c_item_id = ''loadout'', config = Loadout (Some ''flag'') None None,
              updated_at = 20000 \<rparr>]\<rparr>)"
  by (simp add: loadout_POST_def anonymous_loadout_def alice_def githubLogin_of_def toLowerCase_def
      lower_char_def shop_db_def alice_dev_def bob_dev_def ownedSet_def granted_def ZONE_ITEMS_def
      upsert_customization_def flag_item_def loadout_item_def)

text \<open>In the raid loadout, a field that is \<open>null\<close> is refused, and a missing one keeps its value.\<close>

lemma choose_raid_item_null:
  "choose_raid_item Null current free allowed owned = None"
  "choose_raid_item Undefined current free allowed owned = Some current"
  by (simp_all add: choose_raid_item_def)

lemma raid_loadout_null_vehicle:
  "raid_loadout_POST vehicles tags
       (anonymous_raid_loadout\<lparr>rl_user := Some alice,
          rl_body := Some \<lparr> rl_vehicle = Null, rl_tag = Undefined \<rparr>\<rparr>) (shop_db [] 0) =
     ((403, LoadoutError ''Vehicle not owned or invalid''), shop_db [] 0)"
  by (simp add: raid_loadout_POST_def anonymous_raid_loadout_def alice_def githubLogin_of_def
      toLowerCase_def lower_char_def shop_db_def alice_dev_def bob_dev_def choose_raid_item_def
      Let_def)

section \<open>Claims on the kudos\<close>

lemma is_duplicate_key_unique [simp]: "is_duplicate_key (unique_violation c)"
  by (simp add: is_duplicate_key_def)








lemma nineteen_received:
  "\<forall>k \<in> set nineteen_kudos. \<exists>x \<in> set neighbours. dev_id x = receiver_id k"
  by (simp add: nineteen_kudos_def neighbours_def citizen_def del: upt_rec_numeral)






section \<open>Claims on the activity feed\<close>

lemma feed_limit_range: "feed_limit p = Some l \<Longrightarrow> 1 \<le> l \<and> l \<le> 50"
  by (auto simp: feed_limit_def split: option.splits)

lemma feed_query_sorted:
  assumes "feed_query api d limit cursor = Some evs"
  shows "sorted_wrt (\<lambda>a b. created_at a \<ge> created_at b) evs"
proof -
  define rows where "rows = sort_key (\<lambda>e. - int (created_at e))
      (filter (\<lambda>e. case cursor of None \<Rightarrow> True | Some c \<Rightarrow> created_at e < c) (activity_feed d))"
  have "sorted (map (\<lambda>e. - int (created_at e)) rows)"
    unfolding rows_def by (rule sorted_sort_key)
  then have s: "sorted_wrt (\<lambda>a b. created_at a \<ge> created_at b) rows"
    by (simp add: sorted_map sorted_wrt_iff_nth_less)
  from assms have "evs = rows \<or> (\<exists>n. evs = take n rows)"
    by (auto simp: feed_query_def Let_def rows_def split: option.splits nan_limit.splits)
  with s show ?thesis
    by (auto intro: sorted_wrt_take)
qed

text \<open>
  With a limit parameter that is missing or starts with a number, the page is as
  claim C10 says: at most \<open>min(50, max(1, limit))\<close> events, newest first, and \<open>has_more\<close>
  exactly when the page is full.
\<close>

lemma feed_page_bounded:
  assumes "feed_limit (limit_param req) = Some l"
  shows "int (length (events (snd (feed_GET api req d)))) \<le> l \<and> l \<le> 50 \<and>
    sorted_wrt (\<lambda>a b. created_at (event a) \<ge> created_at (event b)) (events (snd (feed_GET api req d))) \<and>
    (has_more (snd (feed_GET api req d)) \<longleftrightarrow> int (length (events (snd (feed_GET api req d)))) = l)"
proof -
  note r = feed_limit_range [OF assms]
  define cursor where "cursor = (case before req of None \<Rightarrow> None
      | Some b \<Rightarrow> map_option created_at (single (filter (\<lambda>e. ev_id e = b) (activity_feed d))))"
  obtain evs where q: "feed_query api d (Some l) cursor = Some evs" and len: "length evs \<le> nat l"
    by (simp add: feed_query_def Let_def)
  have page: "snd (feed_GET api req d) =
      (if evs = [] then \<lparr> events = [], has_more = False \<rparr>
       else \<lparr> events = enrich d evs, has_more = (int (length evs) = l) \<rparr>)"
    using q by (simp add: feed_GET_def Let_def assms cursor_def)
  have srt: "sorted_wrt (\<lambda>a b. created_at a \<ge> created_at b) evs"
    using q by (rule feed_query_sorted)
  show ?thesis
  proof (cases "evs = []")
    case True
    with page r show ?thesis by simp
  next
    case False
    have "sorted_wrt (\<lambda>a b. created_at (event a) \<ge> created_at (event b)) (enrich d evs)"
      using srt by (simp add: enrich_def sorted_wrt_map)
    with False page len r show ?thesis
      by (simp add: enrich_def) linarith
  qed
qed

lemma feed_page_2_bounded:
  "feed_limit (limit_param feed_page_2) = Some 2 \<and>
   length (events (snd (feed_GET api feed_page_2 (feed_db busy_feed)))) \<le> 2"
proof -
  have l: "feed_limit (limit_param feed_page_2) = Some 2"
    by (simp add: feed_page_2_def feed_limit_def parseInt_def js_def StrWhiteSpaceChar_def
        decimal_digit_def Let_def)
  from feed_page_bounded [OF l, of api "feed_db busy_feed"] l show ?thesis
    by simp
qed

text \<open>
  Claim C10 fails at \<open>limit=abc\<close>: \<open>parseInt\<close> gives NaN, which \<open>Math.max\<close> and \<open>Math.min\<close>
  pass on, so that the query carries no limit between 1 and 50, and \<open>has_more\<close> is false.
  With a data API that ignores a limit that is no number, all 51 events of the feed are
  returned.
\<close>

theorem feed_limit_nan:
  "feed_limit (limit_param feed_page_abc) = None \<and>
   length (events (snd (feed_GET LimitIgnored feed_page_abc (feed_db busy_feed)))) = 51 \<and>
   \<not> has_more (snd (feed_GET LimitIgnored feed_page_abc (feed_db busy_feed)))"
proof -
  have l: "feed_limit (limit_param feed_page_abc) = None"
    by (simp add: feed_page_abc_def feed_limit_def parseInt_def js_def StrWhiteSpaceChar_def
        decimal_digit_def Let_def)
  define rows where "rows = sort_key (\<lambda>e. - int (created_at e)) busy_feed"
  have n: "length rows = 51"
    by (simp add: rows_def busy_feed_def)
  then have ne: "rows \<noteq> []" by auto
  have q: "feed_query LimitIgnored (feed_db busy_feed) None None = Some rows"
    by (simp add: feed_query_def feed_db_def shop_db_def rows_def)
  have "snd (feed_GET LimitIgnored feed_page_abc (feed_db busy_feed)) =
      \<lparr> events = enrich (feed_db busy_feed) rows, has_more = False \<rparr>"
    using l q ne by (simp add: feed_GET_def Let_def feed_page_abc_def)
  with l n show ?thesis
    by (simp add: enrich_def)
qed

section \<open>Claims on the achievement script\<close>

lemma unlocked_existingSet:
  "unlocked d dv a \<Longrightarrow> unlock_key dv a \<in> existingSet (developer_achievements d)"
  by (auto simp: unlocked_def existingSet_def list_ex_iff)

text \<open>What a select returns is taken from its rows.\<close>

lemma select_rows_subset: "select_rows api k rows = Some xs \<Longrightarrow> set xs \<subseteq> set rows"
  by (auto simp: select_rows_def split: if_splits option.splits dest: in_set_takeD)

lemma select_rows_distinct:
  "select_rows api k rows = Some xs \<Longrightarrow> distinct (map f rows) \<Longrightarrow> distinct (map f xs)"
  by (auto simp: select_rows_def take_map [symmetric] split: if_splits option.splits)

lemma existing_rows_subset: "set (existing_rows api d) \<subseteq> set (developer_achievements d)"
  by (auto simp: existing_rows_def select_rows_def split: if_splits option.splits dest: in_set_takeD)

lemma loaded_achievements_subset:
  "loaded_achievements api d = Some achs \<Longrightarrow> set achs \<subseteq> set (achievements d)"
  using select_rows_subset [of api 1 "sort_key sort_order (achievements d)" achs]
  by (simp add: loaded_achievements_def)

lemma loaded_developers_subset:
  "loaded_developers api d = Some devs \<Longrightarrow> set devs \<subseteq> set (developers d)"
  using select_rows_subset [of api 2 "sort_key rank (developers d)" devs]
  by (simp add: loaded_developers_def)

lemma newUnlocks_Nil:
  assumes "existing_rows api d = developer_achievements d"
    and "\<And>a. a \<in> set achs \<Longrightarrow> qualifies (stats_of api d dev) a \<Longrightarrow>
           unlocked d (dev_id dev) (ach_id a)"
  shows "newUnlocks api d achs dev = []"
  unfolding newUnlocks_def filter_empty_conv assms(1)
  using assms(2) unlocked_existingSet by blast

text \<open>Every row of a batch carries the id of the developer that it was made for.\<close>

lemma unlockRows_of_dev: "r \<in> set (unlockRows_of dev new) \<Longrightarrow> u_developer_id r = dev_id dev"
  by (auto simp: unlockRows_of_def)

lemma purchaseRows_of_dev: "p \<in> set (purchaseRows_of dev new) \<Longrightarrow> developer_id p = dev_id dev"
  by (auto simp: purchaseRows_of_def split: option.splits if_splits)

lemma feedEvents_of_dev: "e \<in> set (feedEvents_of dev new) \<Longrightarrow> actor_id e = Some (dev_id dev)"
  by (auto simp: feedEvents_of_def split: if_splits)

text \<open>The three writes add rows of their batch, and nothing else.\<close>

lemma upsert_unlocks_adds:
  "\<exists>xs. developer_achievements (case upsert_unlocks d rows of Inl e \<Rightarrow> d | Inr d' \<Rightarrow> d') =
          developer_achievements d @ xs \<and> set xs \<subseteq> set rows"
  by (auto simp: upsert_unlocks_def intro: exI [of _ "[]"])

lemma upsert_unlocks_frame:
  "purchases (case upsert_unlocks d rows of Inl e \<Rightarrow> d | Inr d' \<Rightarrow> d') = purchases d"
  "activity_feed (case upsert_unlocks d rows of Inl e \<Rightarrow> d | Inr d' \<Rightarrow> d') = activity_feed d"
  by (simp_all add: upsert_unlocks_def)

lemma grant_reward_adds:
  "\<exists>xs. purchases (grant_reward row d) = purchases d @ xs \<and>
        (\<forall>x \<in> set xs. developer_id x = developer_id row)"
proof (cases "insert_purchase d row")
  case (Inl e)
  then show ?thesis by (simp add: grant_reward_def)
next
  case (Inr rd)
  obtain r d' where rd: "rd = (r, d')" by (cases rd)
  note ins = insert_purchase_Inr [OF Inr [unfolded rd]]
  have "developer_id r = developer_id row"
    by (subst ins(1)) simp
  then show ?thesis
    using Inr rd by (simp add: grant_reward_def ins(3))
qed

lemma grant_reward_frame:
  "developer_achievements (grant_reward row d) = developer_achievements d"
  "activity_feed (grant_reward row d) = activity_feed d"
  by (auto simp: grant_reward_def insert_purchase_def Let_def split: sum.splits option.splits)

lemma fold_grant_reward_adds:
  "\<exists>xs. purchases (fold grant_reward rows d) = purchases d @ xs \<and>
        (\<forall>x \<in> set xs. developer_id x \<in> developer_id ` set rows)"
proof (induction rows arbitrary: d)
  case Nil
  then show ?case by simp
next
  case (Cons row rows)
  obtain xs where xs: "purchases (grant_reward row d) = purchases d @ xs"
    "\<forall>x \<in> set xs. developer_id x = developer_id row"
    using grant_reward_adds by blast
  obtain ys where ys: "purchases (fold grant_reward rows (grant_reward row d)) =
      purchases (grant_reward row d) @ ys" "\<forall>x \<in> set ys. developer_id x \<in> developer_id ` set rows"
    using Cons.IH by blast
  have "purchases (fold grant_reward (row # rows) d) = purchases d @ (xs @ ys)"
    by (simp add: ys(1) xs(1))
  moreover have "\<forall>x \<in> set (xs @ ys). developer_id x \<in> developer_id ` set (row # rows)"
    using xs(2) ys(2) by auto
  ultimately show ?case by blast
qed

lemma fold_grant_reward_frame:
  "developer_achievements (fold grant_reward rows d) = developer_achievements d"
  "activity_feed (fold grant_reward rows d) = activity_feed d"
  by (induction rows arbitrary: d) (simp_all add: grant_reward_frame)

lemma fold_insert_feed_adds:
  "\<exists>xs. activity_feed (fold (\<lambda>e d3. insert_feed d3 t e) es d) = activity_feed d @ xs \<and>
        (\<forall>x \<in> set xs. actor_id x \<in> actor_id ` set es)"
proof (induction es arbitrary: d)
  case Nil
  then show ?case by simp
next
  case (Cons e es)
  obtain ys where ys: "activity_feed (fold (\<lambda>e d3. insert_feed d3 t e) es (insert_feed d t e)) =
      activity_feed (insert_feed d t e) @ ys" "\<forall>x \<in> set ys. actor_id x \<in> actor_id ` set es"
    using Cons.IH by blast
  have "activity_feed (fold (\<lambda>e d3. insert_feed d3 t e) (e # es) d) =
      activity_feed d @ (e\<lparr>ev_id := uuid_seq d, created_at := t\<rparr> # ys)"
    by (simp add: ys(1)) (simp add: insert_feed_def)
  moreover have "\<forall>x \<in> set (e\<lparr>ev_id := uuid_seq d, created_at := t\<rparr> # ys).
      actor_id x \<in> actor_id ` set (e # es)"
    using ys(2) by auto
  ultimately show ?case by blast
qed

lemma fold_insert_feed_frame:
  "developer_achievements (fold (\<lambda>e d3. insert_feed d3 t e) es d) = developer_achievements d"
  "purchases (fold (\<lambda>e d3. insert_feed d3 t e) es d) = purchases d"
  by (induction es arbitrary: d) (simp_all add: insert_feed_def)

lemma filter_append_none: "\<forall>x \<in> set ys. \<not> P x \<Longrightarrow> filter P (xs @ ys) = filter P xs"
  by simp

text \<open>The run, step by step.\<close>

lemma main_not_loaded:
  "loaded_achievements api d = None \<or> loaded_developers api d = None \<Longrightarrow> main api t d = d"
  by (auto simp: main_def split: option.splits)

lemma main_steps:
  assumes "loaded_achievements api d = Some achs" "loaded_developers api d = Some devs"
  shows "main api t d =
     (if sum_list (map (\<lambda>dev. length (newUnlocks api d achs dev)) devs) = 0 then d
      else fold (\<lambda>e d3. insert_feed d3 t e)
             (concat (map (\<lambda>dev. feedEvents_of dev (newUnlocks api d achs dev)) devs))
             (if concat (map (\<lambda>dev. purchaseRows_of dev (newUnlocks api d achs dev)) devs) \<noteq> []
              then fold grant_reward
                     (concat (map (\<lambda>dev. purchaseRows_of dev (newUnlocks api d achs dev)) devs))
                     (case upsert_unlocks d
                             (concat (map (\<lambda>dev. unlockRows_of dev (newUnlocks api d achs dev)) devs)) of
                        Inl e1 \<Rightarrow> d | Inr d' \<Rightarrow> d')
              else (case upsert_unlocks d
                           (concat (map (\<lambda>dev. unlockRows_of dev (newUnlocks api d achs dev)) devs)) of
                      Inl e1 \<Rightarrow> d | Inr d' \<Rightarrow> d')))"
  using assms by (simp add: main_def Let_def)

lemma no_unlocks:
  "sum_list (map (\<lambda>dev. length (new dev)) devs) = 0 \<longleftrightarrow> (\<forall>dev \<in> set devs. new dev = [])"
  by (induction devs) auto

text \<open>
  When the run has loaded every existing unlock: for a developer \<open>i\<close> whose qualifying
  achievements are all in \<open>developer_achievements\<close>, it adds no row of \<open>i\<close> to
  \<open>developer_achievements\<close>, no purchase of \<open>i\<close>, and no feed event of \<open>i\<close>.
\<close>

lemma rerun_adds_nothing:
  assumes "existing_rows api d = developer_achievements d"
    and "\<forall>dev \<in> set (developers d). dev_id dev = i \<longrightarrow>
     (\<forall>a \<in> set (achievements d). qualifies (stats_of api d dev) a \<longrightarrow> unlocked d i (ach_id a))"
  shows "filter (\<lambda>r. u_developer_id r = i) (developer_achievements (main api t d)) =
           filter (\<lambda>r. u_developer_id r = i) (developer_achievements d) \<and>
         filter (\<lambda>p. developer_id p = i) (purchases (main api t d)) =
           filter (\<lambda>p. developer_id p = i) (purchases d) \<and>
         filter (\<lambda>e. actor_id e = Some i) (activity_feed (main api t d)) =
           filter (\<lambda>e. actor_id e = Some i) (activity_feed d)"
proof (cases "loaded_achievements api d = None \<or> loaded_developers api d = None")
  case True
  then show ?thesis by (simp add: main_not_loaded)
next
  case False
  then obtain achs devs where
    la: "loaded_achievements api d = Some achs" and ld: "loaded_developers api d = Some devs"
    by auto
  note sa = loaded_achievements_subset [OF la] and sd = loaded_developers_subset [OF ld]
  define unlockRows where
    "unlockRows = concat (map (\<lambda>dev. unlockRows_of dev (newUnlocks api d achs dev)) devs)"
  define purchaseRows where
    "purchaseRows = concat (map (\<lambda>dev. purchaseRows_of dev (newUnlocks api d achs dev)) devs)"
  define feedEvents where
    "feedEvents = concat (map (\<lambda>dev. feedEvents_of dev (newUnlocks api d achs dev)) devs)"
  define d1 where "d1 = (case upsert_unlocks d unlockRows of Inl e1 \<Rightarrow> d | Inr d' \<Rightarrow> d')"
  define d2 where "d2 = (if purchaseRows \<noteq> [] then fold grant_reward purchaseRows d1 else d1)"
  define d3 where "d3 = fold (\<lambda>e d3. insert_feed d3 t e) feedEvents d2"
  have m: "main api t d = d \<or> main api t d = d3"
    unfolding main_steps [OF la ld]
    by (simp add: unlockRows_def purchaseRows_def feedEvents_def d1_def d2_def d3_def)
  have none: "newUnlocks api d achs dev = []" if "dev \<in> set devs" "dev_id dev = i" for dev
  proof (rule newUnlocks_Nil [OF assms(1)])
    fix a
    assume "a \<in> set achs" "qualifies (stats_of api d dev) a"
    with that assms(2) sa sd show "unlocked d (dev_id dev) (ach_id a)"
      by blast
  qed
  have u: "u_developer_id r \<noteq> i" if "r \<in> set unlockRows" for r
  proof -
    from that obtain dev where "dev \<in> set devs"
      "r \<in> set (unlockRows_of dev (newUnlocks api d achs dev))"
      by (auto simp: unlockRows_def)
    with none [of dev] unlockRows_of_dev [of r dev] show ?thesis
      by (auto simp: unlockRows_of_def)
  qed
  have p: "developer_id r \<noteq> i" if "r \<in> set purchaseRows" for r
  proof -
    from that obtain dev where "dev \<in> set devs"
      "r \<in> set (purchaseRows_of dev (newUnlocks api d achs dev))"
      by (auto simp: purchaseRows_def)
    with none [of dev] purchaseRows_of_dev [of r dev] show ?thesis
      by (auto simp: purchaseRows_of_def)
  qed
  have f: "actor_id e \<noteq> Some i" if "e \<in> set feedEvents" for e
  proof -
    from that obtain dev where "dev \<in> set devs"
      "e \<in> set (feedEvents_of dev (newUnlocks api d achs dev))"
      by (auto simp: feedEvents_def)
    with none [of dev] feedEvents_of_dev [of e dev] show ?thesis
      by (auto simp: feedEvents_of_def)
  qed
  obtain us where us: "developer_achievements d1 = developer_achievements d @ us"
    "set us \<subseteq> set unlockRows"
    unfolding d1_def using upsert_unlocks_adds by blast
  obtain ps where ps: "purchases d2 = purchases d1 @ ps"
    "\<forall>x \<in> set ps. developer_id x \<in> developer_id ` set purchaseRows"
  proof (cases "purchaseRows \<noteq> []")
    case True
    then show ?thesis
      using fold_grant_reward_adds [of purchaseRows d1] that by (auto simp: d2_def)
  next
    case False
    then show ?thesis
      using that [of "[]"] by (simp add: d2_def)
  qed
  obtain es where es: "activity_feed d3 = activity_feed d2 @ es"
    "\<forall>x \<in> set es. actor_id x \<in> actor_id ` set feedEvents"
    unfolding d3_def using fold_insert_feed_adds by blast
  have t1: "developer_achievements d3 = developer_achievements d @ us"
    by (simp add: d3_def d2_def fold_insert_feed_frame fold_grant_reward_frame us(1))
  have t2: "purchases d3 = purchases d @ ps"
    by (simp add: d3_def fold_insert_feed_frame ps(1)) (simp add: d1_def upsert_unlocks_frame)
  have t3: "activity_feed d3 = activity_feed d @ es"
    by (simp add: es(1)) (simp add: d2_def fold_grant_reward_frame d1_def upsert_unlocks_frame)
  have "filter (\<lambda>r. u_developer_id r = i) (developer_achievements d3) =
      filter (\<lambda>r. u_developer_id r = i) (developer_achievements d)"
    unfolding t1 using us(2) u by (intro filter_append_none) blast
  moreover have "filter (\<lambda>p. developer_id p = i) (purchases d3) =
      filter (\<lambda>p. developer_id p = i) (purchases d)"
    unfolding t2 using ps(2) p by (intro filter_append_none) (metis imageE)
  moreover have "filter (\<lambda>e. actor_id e = Some i) (activity_feed d3) =
      filter (\<lambda>e. actor_id e = Some i) (activity_feed d)"
    unfolding t3 using es(2) f by (intro filter_append_none) (metis imageE)
  ultimately show ?thesis
    using m by auto
qed

text \<open>
  A run that finds every qualifying achievement of the developers that it has loaded among
  the unlocks that it has loaded writes nothing at all.
\<close>

lemma nothing_to_do:
  assumes "\<And>achs devs dev a. loaded_achievements api d = Some achs \<Longrightarrow>
     loaded_developers api d = Some devs \<Longrightarrow> dev \<in> set devs \<Longrightarrow> a \<in> set achs \<Longrightarrow>
     qualifies (stats_of api d dev) a \<Longrightarrow>
     unlock_key (dev_id dev) (ach_id a) \<in> existingSet (existing_rows api d)"
  shows "main api t d = d"
proof (cases "loaded_achievements api d = None \<or> loaded_developers api d = None")
  case True
  then show ?thesis by (simp add: main_not_loaded)
next
  case False
  then obtain achs devs where
    la: "loaded_achievements api d = Some achs" and ld: "loaded_developers api d = Some devs"
    by auto
  have "newUnlocks api d achs dev = []" if "dev \<in> set devs" for dev
    unfolding newUnlocks_def filter_empty_conv using assms [OF la ld that] by blast
  then have "sum_list (map (\<lambda>dev. length (newUnlocks api d achs dev)) devs) = 0"
    by (simp add: no_unlocks)
  then show ?thesis
    by (simp add: main_steps [OF la ld])
qed

lemma bob_has_all:
  "main unlimited 30000 (ach_db bob_unlocks) = ach_db bob_unlocks"
proof (rule nothing_to_do)
  fix achs devs dev a
  assume la: "loaded_achievements unlimited (ach_db bob_unlocks) = Some achs"
    and ld: "loaded_developers unlimited (ach_db bob_unlocks) = Some devs"
    and mem: "dev \<in> set devs" "a \<in> set achs"
    and q: "qualifies (stats_of unlimited (ach_db bob_unlocks) dev) a"
  have a: "a = first_push \<or> a = committed"
    using loaded_achievements_subset [OF la] mem(2) by (auto simp: ach_db_def)
  have "dev = alice_dev \<or> dev = bob_dev"
    using loaded_developers_subset [OF ld] mem(1) by (auto simp: ach_db_def shop_db_def)
  with a q have "dev = bob_dev"
    by (auto simp: qualifies_def stats_of_def alice_dev_def first_push_def committed_def)
  moreover have "existing_rows unlimited (ach_db bob_unlocks) = bob_unlocks"
    by (simp add: existing_rows_def select_rows_def unlimited_def ach_db_def)
  ultimately show "unlock_key (dev_id dev) (ach_id a) \<in>
      existingSet (existing_rows unlimited (ach_db bob_unlocks))"
    using a by (auto simp: existingSet_def bob_unlocks_def bob_dev_def first_push_def committed_def)
qed

subsection \<open>What a run writes\<close>

lemma distinct_unlockRows:
  assumes "distinct (map dev_id devs)" "\<And>dev. distinct (map ach_id (f dev))"
  shows "distinct (map (\<lambda>r. (u_developer_id r, u_achievement_id r))
           (concat (map (\<lambda>dev. unlockRows_of dev (f dev)) devs)))"
  using assms(1)
proof (induction devs)
  case Nil
  then show ?case by simp
next
  case (Cons dev devs)
  have 1: "distinct (map (\<lambda>r. (u_developer_id r, u_achievement_id r)) (unlockRows_of dev (f dev)))"
  proof -
    have "map (\<lambda>r. (u_developer_id r, u_achievement_id r)) (unlockRows_of dev (f dev)) =
        map (Pair (dev_id dev)) (map ach_id (f dev))"
      by (simp add: unlockRows_of_def)
    moreover have "distinct (map (Pair (dev_id dev)) (map ach_id (f dev)))"
      using assms(2) [of dev] by (subst distinct_map) (simp add: inj_on_def)
    ultimately show ?thesis by simp
  qed
  have 2: "u_developer_id r \<in> dev_id ` set devs"
    if "r \<in> set (concat (map (\<lambda>dev. unlockRows_of dev (f dev)) devs))" for r
    using that unlockRows_of_dev by fastforce
  have 3: "u_developer_id r = dev_id dev" if "r \<in> set (unlockRows_of dev (f dev))" for r
    using that by (rule unlockRows_of_dev)
  have 4: "dev_id dev \<notin> dev_id ` set devs"
    using Cons.prems by simp
  have "set (map (\<lambda>r. (u_developer_id r, u_achievement_id r)) (unlockRows_of dev (f dev))) \<inter>
      set (map (\<lambda>r. (u_developer_id r, u_achievement_id r))
        (concat (map (\<lambda>dev. unlockRows_of dev (f dev)) devs))) = {}"
  proof (rule ccontr)
    assume "\<not> ?thesis"
    then obtain r1 r2 where r: "r1 \<in> set (unlockRows_of dev (f dev))"
      "r2 \<in> set (concat (map (\<lambda>dev. unlockRows_of dev (f dev)) devs))"
      "u_developer_id r1 = u_developer_id r2"
      by auto
    with 2 [OF r(2)] 3 [OF r(1)] 4 show False by simp
  qed
  with 1 Cons show ?case by simp
qed

lemma upsert_unlocks_Inr:
  assumes "distinct (map (\<lambda>r. (u_developer_id r, u_achievement_id r)) rows)"
    and "\<And>r. r \<in> set rows \<Longrightarrow> \<exists>x \<in> set (developers d). dev_id x = u_developer_id r"
    and "\<And>r. r \<in> set rows \<Longrightarrow> \<exists>x \<in> set (achievements d). ach_id x = u_achievement_id r"
  shows "upsert_unlocks d rows =
     Inr (d\<lparr>developer_achievements := developer_achievements d @
            filter (\<lambda>r. \<not> list_ex (\<lambda>x. u_developer_id x = u_developer_id r \<and>
                                        u_achievement_id x = u_achievement_id r)
                            (developer_achievements d)) rows\<rparr>)"
  using assms by (simp add: upsert_unlocks_def list_all_iff list_ex_iff)

lemma upsert_unlocks_unlocked:
  assumes "upsert_unlocks d rows = Inr d'" "r \<in> set rows"
  shows "unlocked d' (u_developer_id r) (u_achievement_id r)"
proof -
  from assms(1) have da: "developer_achievements d' = developer_achievements d @
      filter (\<lambda>r. \<not> list_ex (\<lambda>x. u_developer_id x = u_developer_id r \<and>
                                  u_achievement_id x = u_achievement_id r)
                      (developer_achievements d)) rows"
    by (auto simp: upsert_unlocks_def split: if_splits)
  show ?thesis
  proof (cases "list_ex (\<lambda>x. u_developer_id x = u_developer_id r \<and>
      u_achievement_id x = u_achievement_id r) (developer_achievements d)")
    case True
    then show ?thesis
      by (simp add: unlocked_def da)
  next
    case False
    with assms(2) have "r \<in> set (filter (\<lambda>r. \<not> list_ex (\<lambda>x. u_developer_id x = u_developer_id r \<and>
        u_achievement_id x = u_achievement_id r) (developer_achievements d)) rows)"
      by simp
    then show ?thesis
      unfolding unlocked_def da list_ex_append by (subst (2) list_ex_iff) blast
  qed
qed

lemma upsert_unlocks_others:
  "developers (case upsert_unlocks d rows of Inl e \<Rightarrow> d | Inr d' \<Rightarrow> d') = developers d"
  "achievements (case upsert_unlocks d rows of Inl e \<Rightarrow> d | Inr d' \<Rightarrow> d') = achievements d"
  by (simp_all add: upsert_unlocks_def)

lemma grant_reward_others:
  "developers (grant_reward row d) = developers d"
  "achievements (grant_reward row d) = achievements d"
  by (auto simp: grant_reward_def insert_purchase_def Let_def split: sum.splits option.splits)

lemma fold_grant_reward_others:
  "developers (fold grant_reward rows d) = developers d"
  "achievements (fold grant_reward rows d) = achievements d"
  by (induction rows arbitrary: d) (simp_all add: grant_reward_others)

lemma fold_insert_feed_others:
  "developers (fold (\<lambda>e d3. insert_feed d3 t e) es d) = developers d"
  "achievements (fold (\<lambda>e d3. insert_feed d3 t e) es d) = achievements d"
  by (induction es arbitrary: d) (simp_all add: insert_feed_def)

lemma main_tables:
  "developers (main api t d) = developers d" "achievements (main api t d) = achievements d"
proof -
  have "developers (main api t d) = developers d \<and> achievements (main api t d) = achievements d"
  proof (cases "loaded_achievements api d = None \<or> loaded_developers api d = None")
    case True
    then show ?thesis by (simp add: main_not_loaded)
  next
    case False
    then obtain achs devs where
      "loaded_achievements api d = Some achs" "loaded_developers api d = Some devs"
      by auto
    then show ?thesis
      by (simp add: main_steps fold_insert_feed_others fold_grant_reward_others
          upsert_unlocks_others)
  qed
  then show "developers (main api t d) = developers d" "achievements (main api t d) = achievements d"
    by simp_all
qed

lemma loaded_after_main:
  "loaded_achievements api (main api t d) = loaded_achievements api d"
  "loaded_developers api (main api t d) = loaded_developers api d"
  by (simp_all add: loaded_achievements_def loaded_developers_def main_tables)

text \<open>The unlocks after a run whose batch the database accepts.\<close>

lemma main_unlocks:
  assumes "loaded_achievements api d = Some achs" "loaded_developers api d = Some devs"
    and "upsert_unlocks d (concat (map (\<lambda>dev. unlockRows_of dev (newUnlocks api d achs dev)) devs)) =
           Inr d'"
  shows "developer_achievements (main api t d) = developer_achievements d'"
proof (cases "sum_list (map (\<lambda>dev. length (newUnlocks api d achs dev)) devs) = 0")
  case True
  then have "\<forall>dev \<in> set devs. newUnlocks api d achs dev = []"
    by (simp add: no_unlocks)
  then have "concat (map (\<lambda>dev. unlockRows_of dev (newUnlocks api d achs dev)) devs) = []"
    by (simp add: unlockRows_of_def)
  with assms(3) have "developer_achievements d' = developer_achievements d"
    by (auto simp: upsert_unlocks_def)
  with True show ?thesis
    by (simp add: main_steps [OF assms(1,2)])
next
  case False
  have "developer_achievements (main api t d) =
      developer_achievements (case upsert_unlocks d
          (concat (map (\<lambda>dev. unlockRows_of dev (newUnlocks api d achs dev)) devs)) of
        Inl e1 \<Rightarrow> d | Inr d' \<Rightarrow> d')"
    unfolding main_steps [OF assms(1,2)] if_not_P [OF False]
    by (simp add: fold_insert_feed_frame fold_grant_reward_frame)
  then show ?thesis
    by (simp add: assms(3))
qed

text \<open>The events after a run: one more for each loaded developer with a new unlock.\<close>

lemma feedEvents_concat:
  "map (\<lambda>e. (event_type e, actor_id e)) (concat (map (\<lambda>dev. feedEvents_of dev (new dev)) devs)) =
     map (\<lambda>dev. (''achievement_unlocked'', Some (dev_id dev))) (filter (\<lambda>dev. new dev \<noteq> []) devs)"
  by (induction devs) (simp_all add: feedEvents_of_def)

lemma fold_insert_feed_map:
  "map (\<lambda>e. (event_type e, actor_id e)) (activity_feed (fold (\<lambda>e d3. insert_feed d3 t e) es d)) =
     map (\<lambda>e. (event_type e, actor_id e)) (activity_feed d) @
     map (\<lambda>e. (event_type e, actor_id e)) es"
  by (induction es arbitrary: d) (simp_all add: insert_feed_def)

lemma main_feed:
  assumes "loaded_achievements api d = Some achs" "loaded_developers api d = Some devs"
  shows "map (\<lambda>e. (event_type e, actor_id e)) (activity_feed (main api t d)) =
     map (\<lambda>e. (event_type e, actor_id e)) (activity_feed d) @
     map (\<lambda>dev. (''achievement_unlocked'', Some (dev_id dev)))
       (filter (\<lambda>dev. newUnlocks api d achs dev \<noteq> []) devs)"
proof (cases "sum_list (map (\<lambda>dev. length (newUnlocks api d achs dev)) devs) = 0")
  case True
  then have "\<forall>dev \<in> set devs. newUnlocks api d achs dev = []"
    by (simp add: no_unlocks)
  then have "filter (\<lambda>dev. newUnlocks api d achs dev \<noteq> []) devs = []"
    by (simp add: filter_empty_conv)
  with True show ?thesis
    by (simp add: main_steps [OF assms])
next
  case False
  show ?thesis
    unfolding main_steps [OF assms] if_not_P [OF False] fold_insert_feed_map feedEvents_concat
    by (simp add: fold_grant_reward_frame upsert_unlocks_frame)
qed

subsection \<open>The second run after a first one\<close>

lemma grant_reward_gifted:
  "\<exists>xs. purchases (grant_reward row d) = purchases d @ xs \<and>
        (\<forall>x \<in> set xs. gifted_to x = gifted_to row)"
proof (cases "insert_purchase d row")
  case (Inl e)
  then show ?thesis by (simp add: grant_reward_def)
next
  case (Inr rd)
  obtain r d' where rd: "rd = (r, d')" by (cases rd)
  note ins = insert_purchase_Inr [OF Inr [unfolded rd]]
  have "gifted_to r = gifted_to row"
    by (subst ins(1)) simp
  then show ?thesis
    using Inr rd by (simp add: grant_reward_def ins(3))
qed

lemma fold_grant_reward_gifted:
  "\<exists>xs. purchases (fold grant_reward rows d) = purchases d @ xs \<and>
        (\<forall>x \<in> set xs. gifted_to x \<in> gifted_to ` set rows)"
proof (induction rows arbitrary: d)
  case Nil
  then show ?case by simp
next
  case (Cons row rows)
  obtain xs where xs: "purchases (grant_reward row d) = purchases d @ xs"
    "\<forall>x \<in> set xs. gifted_to x = gifted_to row"
    using grant_reward_gifted by blast
  obtain ys where ys: "purchases (fold grant_reward rows (grant_reward row d)) =
      purchases (grant_reward row d) @ ys" "\<forall>x \<in> set ys. gifted_to x \<in> gifted_to ` set rows"
    using Cons.IH by blast
  have "purchases (fold grant_reward (row # rows) d) = purchases d @ (xs @ ys)"
    by (simp add: ys(1) xs(1))
  moreover have "\<forall>x \<in> set (xs @ ys). gifted_to x \<in> gifted_to ` set (row # rows)"
    using xs(2) ys(2) by auto
  ultimately show ?case by blast
qed

lemma purchaseRows_of_gifted: "p \<in> set (purchaseRows_of dev new) \<Longrightarrow> gifted_to p = None"
  by (auto simp: purchaseRows_of_def split: option.splits if_splits)

lemma stats_of_cong:
  assumes "filter (\<lambda>p. status p = ''completed'' \<and> gifted_to p \<noteq> None) (purchases d') =
     filter (\<lambda>p. status p = ''completed'' \<and> gifted_to p \<noteq> None) (purchases d)"
  shows "stats_of api d' dev = stats_of api d dev"
  unfolding stats_of_def giftsSent_rows_def giftsReceived_rows_def assms ..

text \<open>
  With the ids of the developers and of the achievements distinct (they are primary
  keys), the batch of the first run is accepted as a whole. When the second run loads
  every unlock of the table, it writes nothing.
\<close>

lemma main_idempotent:
  assumes "distinct (map dev_id (developers d))" "distinct (map ach_id (achievements d))"
    and "existing_rows api (main api t d) = developer_achievements (main api t d)"
  shows "main api t' (main api t d) = main api t d"
proof (cases "loaded_achievements api d = None \<or> loaded_developers api d = None")
  case True
  then show ?thesis by (simp add: main_not_loaded)
next
  case False
  then obtain achs devs where
    la: "loaded_achievements api d = Some achs" and ld: "loaded_developers api d = Some devs"
    by auto
  note sa = loaded_achievements_subset [OF la] and sd = loaded_developers_subset [OF ld]
  define unlockRows where
    "unlockRows = concat (map (\<lambda>dev. unlockRows_of dev (newUnlocks api d achs dev)) devs)"
  define purchaseRows where
    "purchaseRows = concat (map (\<lambda>dev. purchaseRows_of dev (newUnlocks api d achs dev)) devs)"
  define feedEvents where
    "feedEvents = concat (map (\<lambda>dev. feedEvents_of dev (newUnlocks api d achs dev)) devs)"
  define totalUnlocks where
    "totalUnlocks = sum_list (map (\<lambda>dev. length (newUnlocks api d achs dev)) devs)"
  define d1 where "d1 = (case upsert_unlocks d unlockRows of Inl e1 \<Rightarrow> d | Inr d' \<Rightarrow> d')"
  define d2 where "d2 = (if purchaseRows \<noteq> [] then fold grant_reward purchaseRows d1 else d1)"
  define d3 where "d3 = fold (\<lambda>e d3. insert_feed d3 t e) feedEvents d2"
  have m: "main api s d = (if totalUnlocks = 0 then d else fold (\<lambda>e d3. insert_feed d3 s e) feedEvents d2)"
    for s
    unfolding main_steps [OF la ld]
    by (simp add: unlockRows_def purchaseRows_def feedEvents_def d1_def d2_def totalUnlocks_def)
  show ?thesis
  proof (cases "totalUnlocks = 0")
    case True
    then show ?thesis by (simp add: m)
  next
    case False
    then have md: "main api t d = d3" by (simp add: m d3_def)
    have "distinct (map ach_id (sort_key sort_order (achievements d)))"
      using assms(2) by (simp add: distinct_map)
    with la [unfolded loaded_achievements_def] have da: "distinct (map ach_id achs)"
      by (rule select_rows_distinct)
    have "distinct (map dev_id (sort_key rank (developers d)))"
      using assms(1) by (simp add: distinct_map)
    with ld [unfolded loaded_developers_def] have dd: "distinct (map dev_id devs)"
      by (rule select_rows_distinct)
    have dn: "distinct (map ach_id (newUnlocks api d achs dev))" for dev
      unfolding newUnlocks_def using da by (rule distinct_map_filter)
    have dist: "distinct (map (\<lambda>r. (u_developer_id r, u_achievement_id r)) unlockRows)"
      unfolding unlockRows_def using dd dn by (rule distinct_unlockRows)
    have row: "\<exists>dev \<in> set (developers d). \<exists>a \<in> set (achievements d).
        u_developer_id r = dev_id dev \<and> u_achievement_id r = ach_id a"
      if "r \<in> set unlockRows" for r
    proof -
      from that obtain dev where dev: "dev \<in> set devs"
        "r \<in> set (unlockRows_of dev (newUnlocks api d achs dev))"
        by (auto simp: unlockRows_def)
      then obtain a where "a \<in> set achs"
        "r = \<lparr> u_developer_id = dev_id dev, u_achievement_id = ach_id a \<rparr>"
        by (auto simp: unlockRows_of_def newUnlocks_def)
      with dev(1) sa sd show ?thesis
        by auto
    qed
    have fk1: "\<exists>x \<in> set (developers d). dev_id x = u_developer_id r" if "r \<in> set unlockRows" for r
      using row [OF that] by metis
    have fk2: "\<exists>x \<in> set (achievements d). ach_id x = u_achievement_id r" if "r \<in> set unlockRows" for r
      using row [OF that] by metis
    note up = upsert_unlocks_Inr [of unlockRows d, OF dist fk1 fk2]
    obtain d1' where d1': "upsert_unlocks d unlockRows = Inr d1'"
      using up by simp
    have d1_eq: "d1 = d1'"
      by (simp add: d1_def d1')
    have new: "unlocked d1 (u_developer_id r) (u_achievement_id r)" if "r \<in> set unlockRows" for r
      unfolding d1_eq using d1' that by (rule upsert_unlocks_unlocked)
    obtain us where us: "developer_achievements d1 = developer_achievements d @ us"
      unfolding d1_def using upsert_unlocks_adds by blast
    have t1: "developer_achievements d3 = developer_achievements d1"
      by (simp add: d3_def d2_def fold_insert_feed_frame fold_grant_reward_frame)
    have pg: "gifted_to p = None" if "p \<in> set purchaseRows" for p
      using that purchaseRows_of_gifted by (auto simp: purchaseRows_def)
    obtain ps where ps: "purchases d2 = purchases d1 @ ps" "\<forall>x \<in> set ps. gifted_to x = None"
    proof (cases "purchaseRows \<noteq> []")
      case True
      obtain xs where xs: "purchases (fold grant_reward purchaseRows d1) = purchases d1 @ xs"
        "\<forall>x \<in> set xs. gifted_to x \<in> gifted_to ` set purchaseRows"
        using fold_grant_reward_gifted by blast
      have "\<forall>x \<in> set xs. gifted_to x = None"
        using xs(2) pg by (metis imageE)
      with xs(1) True that show ?thesis by (simp add: d2_def)
    next
      case False
      then show ?thesis
        using that [of "[]"] by (simp add: d2_def)
    qed
    have t2: "purchases d3 = purchases d @ ps"
      by (simp add: d3_def fold_insert_feed_frame ps(1)) (simp add: d1_def upsert_unlocks_frame)
    have st: "stats_of api d3 dev = stats_of api d dev" for dev
      by (rule stats_of_cong) (simp add: t2 ps(2))
    have full: "existing_rows api d3 = developer_achievements d3"
      using assms(3) by (simp add: md)
    have ex: "existingSet (existing_rows api d) \<subseteq> existingSet (developer_achievements d3)"
      using existing_rows_subset [of api d] by (auto simp: existingSet_def t1 us)
    have "main api t' d3 = d3"
    proof (rule nothing_to_do)
      fix achs' devs' dev a
      assume "loaded_achievements api d3 = Some achs'" "loaded_developers api d3 = Some devs'"
        and "dev \<in> set devs'" "a \<in> set achs'" and q: "qualifies (stats_of api d3 dev) a"
      then have dev: "dev \<in> set devs" and a: "a \<in> set achs"
        using la ld loaded_after_main [of api t d] by (simp_all add: md [symmetric])
      show "unlock_key (dev_id dev) (ach_id a) \<in> existingSet (existing_rows api d3)"
      proof (cases "unlock_key (dev_id dev) (ach_id a) \<in> existingSet (existing_rows api d)")
        case True
        with ex show ?thesis by (auto simp: full)
      next
        case False
        with a q have "a \<in> set (newUnlocks api d achs dev)"
          by (simp add: newUnlocks_def st)
        then have "\<lparr> u_developer_id = dev_id dev, u_achievement_id = ach_id a \<rparr> \<in> set unlockRows"
          using dev by (auto simp: unlockRows_def unlockRows_of_def)
        from new [OF this] have "unlocked d1 (dev_id dev) (ach_id a)"
          by simp
        then have "unlocked d3 (dev_id dev) (ach_id a)"
          by (simp add: unlocked_def t1)
        then show ?thesis
          unfolding full by (rule unlocked_existingSet)
      qed
    qed
    then show ?thesis by (simp add: md)
  qed
qed

subsection \<open>A second run that does not load every unlock\<close>

text \<open>The keys of the existing set tell the developers apart.\<close>

lemma string_of_nat_not_Nil: "string_of_nat n \<noteq> []"
  by (subst string_of_nat.simps) simp

lemma digit_inj:
  assumes "m < 10" "n < 10" "''0123456789'' ! m = ''0123456789'' ! n"
  shows "m = n"
proof -
  have "distinct ''0123456789''" by simp
  then show ?thesis
    using assms by (simp add: nth_eq_iff_index_eq)
qed

lemma string_of_nat_inj: "string_of_nat m = string_of_nat n \<Longrightarrow> m = n"
proof (induction m arbitrary: n rule: string_of_nat.induct)
  case (1 m)
  note eq = "1.prems"
  show ?case
  proof (cases "m < 10")
    case m: True
    show ?thesis
    proof (cases "n < 10")
      case True
      with m eq have "''0123456789'' ! m = ''0123456789'' ! n"
        by (simp add: string_of_nat.simps [of m] string_of_nat.simps [of n])
      with m True show ?thesis by (rule digit_inj)
    next
      case False
      with m eq have "string_of_nat (n div 10) = []"
        by (simp add: string_of_nat.simps [of m] string_of_nat.simps [of n])
      then show ?thesis by (simp add: string_of_nat_not_Nil)
    qed
  next
    case m: False
    show ?thesis
    proof (cases "n < 10")
      case True
      with m eq have "string_of_nat (m div 10) = []"
        by (simp add: string_of_nat.simps [of m] string_of_nat.simps [of n])
      then show ?thesis by (simp add: string_of_nat_not_Nil)
    next
      case False
      with m eq have s: "string_of_nat (m div 10) = string_of_nat (n div 10)"
        and c: "''0123456789'' ! (m mod 10) = ''0123456789'' ! (n mod 10)"
        by (simp_all add: string_of_nat.simps [of m] string_of_nat.simps [of n])
      have "m div 10 = n div 10"
        using m s by (rule "1.IH")
      moreover have "m mod 10 = n mod 10"
        using c by (intro digit_inj) simp_all
      ultimately show ?thesis
        by (metis div_mult_mod_eq)
    qed
  qed
qed

lemma unlock_key_inj:
  assumes "unlock_key i a = unlock_key j b"
    and "a = ''first_push'' \<or> a = ''committed''" "b = ''first_push'' \<or> b = ''committed''"
  shows "i = j"
proof (cases "a = b")
  case True
  with assms(1) have "string_of_nat i = string_of_nat j"
    by (simp add: unlock_key_def)
  then show ?thesis by (rule string_of_nat_inj)
next
  case False
  from assms(1) have "last (unlock_key i a) = last (unlock_key j b)"
    by simp
  with False assms(2,3) show ?thesis
    by (auto simp: unlock_key_def)
qed

text \<open>The rows of \<open>all_unlocks\<close>.\<close>

lemma all_unlocks_rows:
  "r \<in> set (concat (map all_unlocks xs)) \<longleftrightarrow>
     u_developer_id r \<in> set xs \<and>
     (u_achievement_id r = ''first_push'' \<or> u_achievement_id r = ''committed'')"
  by (induction xs) (auto simp: all_unlocks_def)

lemma all_unlocks_distinct:
  "distinct xs \<Longrightarrow>
   distinct (map (\<lambda>r. (u_developer_id r, u_achievement_id r)) (concat (map all_unlocks xs)))"
proof (induction xs)
  case Nil
  then show ?case by simp
next
  case (Cons x xs)
  have "u_developer_id r \<noteq> x" if "r \<in> set (concat (map all_unlocks xs))" for r
    using that [unfolded all_unlocks_rows] Cons.prems by auto
  then have "(x, a) \<notin> (\<lambda>r. (u_developer_id r, u_achievement_id r)) ` set (concat (map all_unlocks xs))"
    for a
    by (metis (no_types, lifting) imageE prod.inject)
  with Cons show ?case
    by (simp add: all_unlocks_def)
qed

lemma all_unlocks_length: "length (concat (map all_unlocks xs)) = 2 * length xs"
  by (induction xs) (simp_all add: all_unlocks_def)

lemma all_unlocks_take:
  "take (2 * length xs) (concat (map all_unlocks (xs @ ys))) = concat (map all_unlocks xs)"
  by (simp add: all_unlocks_length)

lemma all_unlocks_keys:
  "unlock_key i a \<in> existingSet (concat (map all_unlocks xs))"
  if "i \<in> set xs" "a = ''first_push'' \<or> a = ''committed''"
proof -
  have "\<lparr> u_developer_id = i, u_achievement_id = a \<rparr> \<in> set (concat (map all_unlocks xs))"
    unfolding all_unlocks_rows using that by simp
  then show ?thesis
    unfolding existingSet_def set_map by (rule rev_image_eqI) simp
qed

lemma all_unlocks_no_key:
  assumes "i \<notin> set xs" "a = ''first_push'' \<or> a = ''committed''"
  shows "unlock_key i a \<notin> existingSet (concat (map all_unlocks xs))"
proof
  assume "unlock_key i a \<in> existingSet (concat (map all_unlocks xs))"
  then obtain r where r: "r \<in> set (concat (map all_unlocks xs))"
    "unlock_key i a = unlock_key (u_developer_id r) (u_achievement_id r)"
    by (auto simp: existingSet_def)
  from r(1) [unfolded all_unlocks_rows] have "u_developer_id r \<in> set xs"
    "u_achievement_id r = ''first_push'' \<or> u_achievement_id r = ''committed''"
    by simp_all
  with unlock_key_inj [OF r(2) assms(2)] assms(1) show False
    by simp
qed

text \<open>What the script loads from a city, with a data API that returns \<open>n\<close> rows.\<close>

lemma select_capped: "select_rows (capped n) j rows = Some (take n rows)"
  by (simp add: select_rows_def capped_def)

lemma city_achievements:
  assumes "2 \<le> n" "achievements d = [first_push, committed]"
  shows "loaded_achievements (capped n) d = Some [first_push, committed]"
proof -
  have "sort_key sort_order [first_push, committed] = [first_push, committed]"
    by (simp add: first_push_def committed_def)
  with assms show ?thesis
    by (simp add: loaded_achievements_def select_capped)
qed

lemma city_developers:
  assumes "length xs \<le> n" "sorted xs" "developers d = map citizen xs"
  shows "loaded_developers (capped n) d = Some (map citizen xs)"
proof -
  have "map rank (map citizen xs) = xs"
    by (simp add: citizen_def comp_def)
  with assms(2) have "sort_key rank (map citizen xs) = map citizen xs"
    by (intro sort_key_id_if_sorted) simp
  with assms(1,3) show ?thesis
    by (simp add: loaded_developers_def select_capped)
qed

lemma citizen_qualifies:
  "qualifies (stats_of api d (citizen i)) first_push"
  "qualifies (stats_of api d (citizen i)) committed"
  by (simp_all add: qualifies_def stats_of_def citizen_def first_push_def committed_def)

lemma citizen_newUnlocks:
  "newUnlocks api d [first_push, committed] (citizen i) =
     (if unlock_key i ''first_push'' \<in> existingSet (existing_rows api d) then [] else [first_push]) @
     (if unlock_key i ''committed'' \<in> existingSet (existing_rows api d) then [] else [committed])"
proof -
  have "dev_id (citizen i) = i" "ach_id first_push = ''first_push''" "ach_id committed = ''committed''"
    by (simp_all add: citizen_def first_push_def committed_def)
  then show ?thesis
    by (simp add: newUnlocks_def citizen_qualifies)
qed

lemma citizen_all_unlocks:
  "unlockRows_of (citizen i) [first_push, committed] = all_unlocks i"
  by (simp add: unlockRows_of_def all_unlocks_def citizen_def first_push_def committed_def)

lemma city_tables:
  "developers (city n) = map citizen [1..<Suc n]" "achievements (city n) = [first_push, committed]"
  "developer_achievements (city n) = []" "activity_feed (city n) = []"
  by (simp_all add: city_def)

lemma citizen_exists: "i \<in> set xs \<Longrightarrow> \<exists>x \<in> set (map citizen xs). dev_id x = i"
  by (auto simp: citizen_def)

lemma city_catalogue:
  "a = ''first_push'' \<or> a = ''committed'' \<Longrightarrow> \<exists>x \<in> set [first_push, committed]. ach_id x = a"
  by (auto simp: first_push_def committed_def)

text \<open>
  The first run, with a data API that returns all developers: every developer gets both
  achievements, and one event.
\<close>

lemma first_run:
  assumes "developers d = map citizen xs" "achievements d = [first_push, committed]"
    and "developer_achievements d = []" "activity_feed d = []"
    and "sorted xs" "distinct xs" "length xs \<le> n" "2 \<le> n"
  shows "developer_achievements (main (capped n) t d) = concat (map all_unlocks xs)"
    and "map (\<lambda>e. (event_type e, actor_id e)) (activity_feed (main (capped n) t d)) =
           map (\<lambda>i. (''achievement_unlocked'', Some i)) xs"
proof -
  let ?api = "capped n"
  have la: "loaded_achievements ?api d = Some [first_push, committed]"
    using assms(8,2) by (rule city_achievements)
  have ld: "loaded_developers ?api d = Some (map citizen xs)"
    using assms(7,5,1) by (rule city_developers)
  have ex: "existing_rows ?api d = []"
    by (simp add: existing_rows_def select_capped assms(3))
  have nu: "newUnlocks ?api d [first_push, committed] (citizen i) = [first_push, committed]" for i
    by (simp add: citizen_newUnlocks ex existingSet_def)
  have rows: "concat (map (\<lambda>dev. unlockRows_of dev (newUnlocks ?api d [first_push, committed] dev))
      (map citizen xs)) = concat (map all_unlocks xs)"
    by (simp add: comp_def nu citizen_all_unlocks)
  have "upsert_unlocks d (concat (map all_unlocks xs)) =
      Inr (d\<lparr>developer_achievements := developer_achievements d @
            filter (\<lambda>r. \<not> list_ex (\<lambda>x. u_developer_id x = u_developer_id r \<and>
                                        u_achievement_id x = u_achievement_id r)
                            (developer_achievements d)) (concat (map all_unlocks xs))\<rparr>)"
  proof (rule upsert_unlocks_Inr)
    show "distinct (map (\<lambda>r. (u_developer_id r, u_achievement_id r)) (concat (map all_unlocks xs)))"
      using assms(6) by (rule all_unlocks_distinct)
  next
    fix r
    assume "r \<in> set (concat (map all_unlocks xs))"
    then have r: "u_developer_id r \<in> set xs"
      "u_achievement_id r = ''first_push'' \<or> u_achievement_id r = ''committed''"
      unfolding all_unlocks_rows by simp_all
    show "\<exists>x \<in> set (developers d). dev_id x = u_developer_id r"
      unfolding assms(1) using r(1) by (rule citizen_exists)
    show "\<exists>x \<in> set (achievements d). ach_id x = u_achievement_id r"
      unfolding assms(2) using r(2) by (rule city_catalogue)
  qed
  then have up: "upsert_unlocks d (concat (map (\<lambda>dev. unlockRows_of dev
      (newUnlocks ?api d [first_push, committed] dev)) (map citizen xs))) =
      Inr (d\<lparr>developer_achievements := concat (map all_unlocks xs)\<rparr>)"
    unfolding rows by (simp add: assms(3))
  show "developer_achievements (main ?api t d) = concat (map all_unlocks xs)"
    unfolding main_unlocks [OF la ld up] by simp
  have "filter (\<lambda>dev. newUnlocks ?api d [first_push, committed] dev \<noteq> []) (map citizen xs) =
      map citizen xs"
    by (simp add: filter_map comp_def nu)
  moreover have "map (\<lambda>dev. (''achievement_unlocked'', Some (dev_id dev))) (map citizen xs) =
      map (\<lambda>i. (''achievement_unlocked'', Some i)) xs"
    by (simp add: citizen_def)
  ultimately show "map (\<lambda>e. (event_type e, actor_id e)) (activity_feed (main ?api t d)) =
      map (\<lambda>i. (''achievement_unlocked'', Some i)) xs"
    unfolding main_feed [OF la ld] by (simp add: assms(4))
qed

text \<open>
  A later run that loads all developers, but only the unlocks of all but the last one:
  nothing is added to the unlocks, and the last developer is announced once more.
\<close>

lemma second_run:
  assumes "developers d = map citizen (ys @ [z])" "achievements d = [first_push, committed]"
    and "developer_achievements d = concat (map all_unlocks (ys @ [z]))"
    and "sorted (ys @ [z])" "z \<notin> set ys" "Suc (length ys) \<le> 2 * length ys"
  shows "developer_achievements (main (capped (2 * length ys)) t d) = developer_achievements d"
    and "map (\<lambda>e. (event_type e, actor_id e)) (activity_feed (main (capped (2 * length ys)) t d)) =
           map (\<lambda>e. (event_type e, actor_id e)) (activity_feed d) @
           [(''achievement_unlocked'', Some z)]"
proof -
  let ?api = "capped (2 * length ys)"
  have la: "loaded_achievements ?api d = Some [first_push, committed]"
    using assms(6,2) by (intro city_achievements) simp_all
  have ld: "loaded_developers ?api d = Some (map citizen (ys @ [z]))"
    using assms(6,4,1) by (intro city_developers) simp_all
  have "take (2 * length ys) (concat (map all_unlocks (ys @ [z]))) = concat (map all_unlocks ys)"
    by (rule all_unlocks_take)
  then have ex: "existing_rows ?api d = concat (map all_unlocks ys)"
    by (simp add: existing_rows_def select_capped assms(3))
  have old: "newUnlocks ?api d [first_push, committed] (citizen i) = []" if "i \<in> set ys" for i
    unfolding citizen_newUnlocks ex using all_unlocks_keys [OF that] by simp
  have new: "newUnlocks ?api d [first_push, committed] (citizen z) = [first_push, committed]"
    unfolding citizen_newUnlocks ex using all_unlocks_no_key [OF assms(5)] by simp
  have none: "filter (\<lambda>dev. newUnlocks ?api d [first_push, committed] dev \<noteq> []) (map citizen ys) = []"
    unfolding filter_empty_conv using old by auto
  have feed: "filter (\<lambda>dev. newUnlocks ?api d [first_push, committed] dev \<noteq> [])
      (map citizen (ys @ [z])) = [citizen z]"
    using none by (simp add: new)
  have "concat (map (\<lambda>dev. unlockRows_of dev (newUnlocks ?api d [first_push, committed] dev))
      (map citizen ys)) = []"
    using old by (simp add: unlockRows_of_def)
  then have rows: "concat (map (\<lambda>dev. unlockRows_of dev (newUnlocks ?api d [first_push, committed] dev))
      (map citizen (ys @ [z]))) = all_unlocks z"
    by (simp add: new citizen_all_unlocks)
  have "upsert_unlocks d (all_unlocks z) =
      Inr (d\<lparr>developer_achievements := developer_achievements d @
            filter (\<lambda>r. \<not> list_ex (\<lambda>x. u_developer_id x = u_developer_id r \<and>
                                        u_achievement_id x = u_achievement_id r)
                            (developer_achievements d)) (all_unlocks z)\<rparr>)"
  proof (rule upsert_unlocks_Inr)
    show "distinct (map (\<lambda>r. (u_developer_id r, u_achievement_id r)) (all_unlocks z))"
      by (simp add: all_unlocks_def)
  next
    fix r
    assume "r \<in> set (all_unlocks z)"
    then have r: "u_developer_id r \<in> set (ys @ [z])"
      "u_achievement_id r = ''first_push'' \<or> u_achievement_id r = ''committed''"
      by (auto simp: all_unlocks_def)
    show "\<exists>x \<in> set (developers d). dev_id x = u_developer_id r"
      unfolding assms(1) using r(1) by (rule citizen_exists)
    show "\<exists>x \<in> set (achievements d). ach_id x = u_achievement_id r"
      unfolding assms(2) using r(2) by (rule city_catalogue)
  qed
  moreover have "filter (\<lambda>r. \<not> list_ex (\<lambda>x. u_developer_id x = u_developer_id r \<and>
      u_achievement_id x = u_achievement_id r) (developer_achievements d)) (all_unlocks z) = []"
    unfolding filter_empty_conv assms(3) by (auto simp: list_ex_iff all_unlocks_def)
  ultimately have up: "upsert_unlocks d (concat (map (\<lambda>dev. unlockRows_of dev
      (newUnlocks ?api d [first_push, committed] dev)) (map citizen (ys @ [z])))) =
      Inr (d\<lparr>developer_achievements := developer_achievements d\<rparr>)"
    unfolding rows by simp
  show "developer_achievements (main ?api t d) = developer_achievements d"
    unfolding main_unlocks [OF la ld up] by simp
  show "map (\<lambda>e. (event_type e, actor_id e)) (activity_feed (main ?api t d)) =
      map (\<lambda>e. (event_type e, actor_id e)) (activity_feed d) @ [(''achievement_unlocked'', Some z)]"
    unfolding main_feed [OF la ld] feed by (simp add: citizen_def)
qed

text \<open>With a data API that returns every row, the second run writes nothing.\<close>

lemma second_run_unlimited:
  "main unlimited t' (main unlimited t (city n)) = main unlimited t (city n)"
proof (rule main_idempotent)
  show "distinct (map dev_id (developers (city n)))"
    by (simp add: city_tables citizen_def comp_def del: upt_Suc)
  show "distinct (map ach_id (achievements (city n)))"
    by (simp add: city_tables first_push_def committed_def)
  show "existing_rows unlimited (main unlimited t (city n)) =
      developer_achievements (main unlimited t (city n))"
    by (simp add: existing_rows_def select_rows_def unlimited_def)
qed

text \<open>
  Claim C4. A city of 501 developers who all qualify for both achievements; the data API
  returns at most 1000 rows of a select. The first run unlocks both achievements for
  everyone, 1002 rows, and announces every developer once. The second run loads the
  first 1000 unlocks, finds those of developer 501 missing, and announces that developer
  a second time; the upsert adds no row.
\<close>

theorem rerun_announces_again:
  "map (\<lambda>e. (event_type e, actor_id e)) (activity_feed (main supabase 30000 (city 501))) =
     map (\<lambda>i. (''achievement_unlocked'', Some i)) [1..<502] \<and>
   unlocked (main supabase 30000 (city 501)) 501 ''first_push'' \<and>
   unlocked (main supabase 30000 (city 501)) 501 ''committed'' \<and>
   developer_achievements (main supabase 40000 (main supabase 30000 (city 501))) =
     developer_achievements (main supabase 30000 (city 501)) \<and>
   map (\<lambda>e. (event_type e, actor_id e))
       (activity_feed (main supabase 40000 (main supabase 30000 (city 501)))) =
     map (\<lambda>i. (''achievement_unlocked'', Some i)) [1..<502] @ [(''achievement_unlocked'', Some 501)]"
proof -
  define ys :: "nat list" where "ys = [1..<501]"
  define d1 where "d1 = main (capped 1000) 30000 (city 501)"
  have s: "(502 :: nat) = Suc 501"
    by simp
  have xs: "[1..<502] = ys @ [501]"
    unfolding s ys_def by (rule upt_Suc_append) simp
  have len: "length ys = 500"
    by (simp add: ys_def)
  have cap: "(1000 :: nat) = 2 * length ys"
    by (simp add: len)
  have srt: "sorted (ys @ [501])" and dst: "distinct (ys @ [501])"
    unfolding xs [symmetric] by simp_all
  have last: "501 \<notin> set ys"
    by (simp add: ys_def)
  have tab: "developers (city 501) = map citizen (ys @ [501])"
    unfolding xs [symmetric] s by (rule city_tables)
  note run1 = first_run [of "city 501" "ys @ [501]" 1000 30000, OF tab city_tables(2,3,4) srt dst,
      folded d1_def]
  have unl: "developer_achievements d1 = concat (map all_unlocks (ys @ [501]))"
    and ev1: "map (\<lambda>e. (event_type e, actor_id e)) (activity_feed d1) =
      map (\<lambda>i. (''achievement_unlocked'', Some i)) (ys @ [501])"
    by (rule run1; simp add: len)+
  have tab1: "developers d1 = map citizen (ys @ [501])" "achievements d1 = [first_push, committed]"
    unfolding d1_def main_tables by (rule tab, rule city_tables)
  note run2 = second_run [of d1 ys 501 40000, OF tab1 unl srt last, folded cap]
  have same: "developer_achievements (main (capped 1000) 40000 d1) = developer_achievements d1"
    and ev2: "map (\<lambda>e. (event_type e, actor_id e)) (activity_feed (main (capped 1000) 40000 d1)) =
      map (\<lambda>e. (event_type e, actor_id e)) (activity_feed d1) @ [(''achievement_unlocked'', Some 501)]"
    by (rule run2; simp add: len)+
  have "unlocked d1 501 ''first_push''" "unlocked d1 501 ''committed''"
    unfolding unlocked_def unl by (simp_all add: all_unlocks_def)
  with same ev1 ev2 show ?thesis
    unfolding supabase_def d1_def [symmetric] xs by simp
qed

subsection \<open>A second run whose select of the existing unlocks fails\<close>

text \<open>
  The first run on the small catalogue: Bob gets both achievements, the flag, and one
  event. In the second run the third select fails, \<open>existing ?? []\<close> is empty, and Bob is
  announced again; the upsert adds nothing and the flag is refused as a duplicate.
\<close>

lemma ach_db_first_run:
  "main unlimited 30000 (ach_db []) =
     (ach_db bob_unlocks)
       \<lparr>purchases := [\<lparr> p_id = 0, developer_id = 2, item_id = ''flag'', provider = ''achievement'',
            provider_tx_id = Some (''achievement_2_first_push''), amount_cents = 0, currency = ''usd'',
            status = ''completed'', gifted_to = None \<rparr>],
        activity_feed := [\<lparr> ev_id = 1, event_type = ''achievement_unlocked'', actor_id = Some 2,
            target_id = None,
            metadata = AchievementMany ''bob'' 2 [(''first_push'', ''First Push'', ''bronze''),
                         (''committed'', ''Committed'', ''silver'')],
            created_at = 30000 \<rparr>],
        uuid_seq := 2\<rparr>"
  by (simp add: main_def Let_def loaded_achievements_def loaded_developers_def select_rows_def
      unlimited_def ach_db_def shop_db_def alice_dev_def bob_dev_def first_push_def committed_def
      newUnlocks_def existing_rows_def existingSet_def qualifies_def stats_of_def unlockRows_of_def
      purchaseRows_of_def feedEvents_of_def upsert_unlocks_def grant_reward_def insert_purchase_def
      purchases_check_def insert_feed_def bob_unlocks_def flag_item_def billboard_item_def
      string_of_nat.simps numeral_2_eq_2)

lemma rerun_after_failed_select:
  "main (unlimited\<lparr>failing := [3]\<rparr>) 40000 (main unlimited 30000 (ach_db [])) =
     (main unlimited 30000 (ach_db []))
       \<lparr>activity_feed := activity_feed (main unlimited 30000 (ach_db [])) @
          [\<lparr> ev_id = 2, event_type = ''achievement_unlocked'', actor_id = Some 2,
             target_id = None,
             metadata = AchievementMany ''bob'' 2 [(''first_push'', ''First Push'', ''bronze''),
                          (''committed'', ''Committed'', ''silver'')],
             created_at = 40000 \<rparr>],
        uuid_seq := 3\<rparr>"
  unfolding ach_db_first_run
  by (simp add: main_def Let_def loaded_achievements_def loaded_developers_def select_rows_def
      unlimited_def ach_db_def shop_db_def alice_dev_def bob_dev_def first_push_def committed_def
      newUnlocks_def existing_rows_def existingSet_def qualifies_def stats_of_def unlockRows_of_def
      purchaseRows_of_def feedEvents_of_def upsert_unlocks_def grant_reward_def insert_purchase_def
      purchases_check_def insert_feed_def bob_unlocks_def flag_item_def billboard_item_def
      giftsSent_rows_def giftsReceived_rows_def giftsSentMap_def giftsReceivedMap_def
      string_of_nat.simps numeral_2_eq_2 numeral_3_eq_3)

end
